theory Spec2Isabelle
  imports Main "HOL-Library.Word"
begin

unbundle bit_operations_syntax

section \<open>Machine types and errors\<close>

type_synonym uint8_t = "8 word"
type_synonym uint16_t = "16 word"
type_synonym uint32_t = "32 word"
type_synonym uint64_t = "64 word"
type_synonym size_t = "64 word"
type_synonym int64_t = "64 word"

text \<open>
  Every way a call of the runtime can fail to return.  \<open>Fatal\<close> is the runtime's
  \<^verbatim>\<open>error(...)\<close>, which prints its message and terminates the process;
  \<open>HSA_API_Error\<close> is the fatal error raised by \<^verbatim>\<open>CHECK_HSA\<close>; \<open>Blocked\<close> is a thread
  that waits for a lock that is held; the remaining constructors are the traps and
  uncaught exceptions of C++ the code can run into.
\<close>

datatype hsa_status_t = HSA_STATUS_SUCCESS | HSA_STATUS_ERROR nat

datatype error =
    Fatal string
  | HSA_API_Error string hsa_status_t
  | DivisionByZero
  | NullDereference
  | OutOfBounds
  | Invalid_argument
  | Out_of_range
  | Blocked

section \<open>Argument packing of \<^verbatim>\<open>HSAPlatform::launch_kernel\<close>\<close>

text \<open>
  The lambda \<^verbatim>\<open>align_address\<close>: the alignment is capped at 8 and the base is rounded
  up to a multiple of it, in \<^verbatim>\<open>size_t\<close> arithmetic.  The division traps when the
  alignment is 0.
\<close>

definition align_address :: "size_t \<Rightarrow> size_t \<Rightarrow> error + size_t" where
  "align_address base align =
     (let align = (if align > 8 then 8 else align)
      in if align = 0 then Inl DivisionByZero
         else Inr (((base + align - 1) div align) * align))"

text \<open>
  A kernel argument as the caller passes it: the bytes \<^verbatim>\<open>args[i]\<close> points to and the
  entry \<^verbatim>\<open>sizes[i]\<close>.
\<close>

record kernel_arg =
  arg_data :: "nat \<Rightarrow> uint8_t"
  arg_size :: uint32_t

text \<open>\<^verbatim>\<open>std::memcpy\<close> into the kernel-argument buffer, addressed by byte offset.\<close>

definition memcpy :: "(size_t \<Rightarrow> uint8_t) \<Rightarrow> size_t \<Rightarrow> (nat \<Rightarrow> uint8_t) \<Rightarrow> uint32_t
    \<Rightarrow> (size_t \<Rightarrow> uint8_t)" where
  "memcpy buf dst src n = (\<lambda>a. if unat (a - dst) < unat n then src (unat (a - dst)) else buf a)"

text \<open>
  The state of the packing loop: the running \<^verbatim>\<open>offset\<close>, the buffer at
  \<^verbatim>\<open>kernarg_address\<close>, and the destination offset of every \<^verbatim>\<open>memcpy\<close> done so far,
  in call order.
\<close>

record pack_state =
  offset :: size_t
  kernarg :: "size_t \<Rightarrow> uint8_t"
  copied_at :: "size_t list"

fun pack_args :: "kernel_arg list \<Rightarrow> pack_state \<Rightarrow> error + pack_state" where
  "pack_args [] st = Inr st"
| "pack_args (a # as) st =
     (case align_address (offset st) (ucast (arg_size a)) of
        Inl e \<Rightarrow> Inl e
      | Inr off \<Rightarrow>
          pack_args as
            \<lparr> offset = off + ucast (arg_size a),
              kernarg = memcpy (kernarg st) off (arg_data a) (arg_size a),
              copied_at = copied_at st @ [off] \<rparr>)"

definition pack_init :: "(size_t \<Rightarrow> uint8_t) \<Rightarrow> pack_state" where
  "pack_init buf = \<lparr> offset = 0, kernarg = buf, copied_at = [] \<rparr>"

text \<open>
  The packing rule in the specification's words, over unbounded naturals: every offset is
  the previous end rounded up to the alignment \<open>min size 8\<close>, and the argument's size is
  added after it.  \<open>round_up base align\<close> is the least multiple of \<open>align\<close> that is
  at least \<open>base\<close> (lemmas \<open>round_up_bounds\<close>, \<open>round_up_dvd\<close>, \<open>round_up_least\<close>).
\<close>

definition round_up :: "nat \<Rightarrow> nat \<Rightarrow> nat" where
  "round_up base align = ((base + align - 1) div align) * align"

fun spec_offsets :: "nat \<Rightarrow> nat list \<Rightarrow> nat list" where
  "spec_offsets base [] = []"
| "spec_offsets base (s # ss) =
     (let off = round_up base (min s 8) in off # spec_offsets (off + s) ss)"

fun spec_end :: "nat \<Rightarrow> nat list \<Rightarrow> nat" where
  "spec_end base [] = base"
| "spec_end base (s # ss) = spec_end (round_up base (min s 8) + s) ss"

abbreviation sizes_of :: "kernel_arg list \<Rightarrow> nat list" where
  "sizes_of args \<equiv> map (\<lambda>a. unat (arg_size a)) args"

section \<open>The world outside the runtime\<close>

type_synonym handle = nat

datatype hsa_profile_t = HSA_PROFILE_BASE | HSA_PROFILE_FULL
datatype hsa_default_float_rounding_mode_t =
  HSA_DEFAULT_FLOAT_ROUNDING_MODE_DEFAULT | HSA_DEFAULT_FLOAT_ROUNDING_MODE_ZERO
  | HSA_DEFAULT_FLOAT_ROUNDING_MODE_NEAR
datatype hsa_device_type_t = HSA_DEVICE_TYPE_CPU | HSA_DEVICE_TYPE_GPU | HSA_DEVICE_TYPE_DSP
datatype hsa_region_segment_t =
  HSA_REGION_SEGMENT_GLOBAL | HSA_REGION_SEGMENT_READONLY | HSA_REGION_SEGMENT_PRIVATE
  | HSA_REGION_SEGMENT_GROUP | HSA_REGION_SEGMENT_KERNARG

datatype hsa_agent_info_t =
  HSA_AGENT_INFO_NAME | HSA_AGENT_INFO_VENDOR_NAME | HSA_AGENT_INFO_PROFILE
  | HSA_AGENT_INFO_DEFAULT_FLOAT_ROUNDING_MODE | HSA_AGENT_INFO_ISA | HSA_AGENT_INFO_DEVICE
  | HSA_AGENT_INFO_VERSION_MAJOR | HSA_AGENT_INFO_VERSION_MINOR | HSA_AGENT_INFO_QUEUE_MAX_SIZE
datatype hsa_isa_info_t = HSA_ISA_INFO_NAME_LENGTH | HSA_ISA_INFO_NAME
datatype hsa_region_info_t =
  HSA_REGION_INFO_SEGMENT | HSA_REGION_INFO_GLOBAL_FLAGS | HSA_REGION_INFO_RUNTIME_ALLOC_ALLOWED
datatype hsa_system_info_t =
  HSA_SYSTEM_INFO_VERSION_MAJOR | HSA_SYSTEM_INFO_VERSION_MINOR | HSA_SYSTEM_INFO_TIMESTAMP_FREQUENCY
datatype hsa_executable_symbol_info_t =
  HSA_EXECUTABLE_SYMBOL_INFO_KERNEL_OBJECT | HSA_EXECUTABLE_SYMBOL_INFO_KERNEL_KERNARG_SEGMENT_SIZE
  | HSA_EXECUTABLE_SYMBOL_INFO_KERNEL_GROUP_SEGMENT_SIZE
  | HSA_EXECUTABLE_SYMBOL_INFO_KERNEL_PRIVATE_SEGMENT_SIZE
datatype hsa_signal_condition_t =
  HSA_SIGNAL_CONDITION_EQ | HSA_SIGNAL_CONDITION_NE | HSA_SIGNAL_CONDITION_LT
  | HSA_SIGNAL_CONDITION_GTE
datatype hsa_wait_state_t = HSA_WAIT_STATE_BLOCKED | HSA_WAIT_STATE_ACTIVE

definition UINT64_MAX :: uint64_t where
  "UINT64_MAX = - 1"

text \<open>The AQL dispatch packet \<^verbatim>\<open>hsa_kernel_dispatch_packet_t\<close>, with the fields the code sets.\<close>

record hsa_kernel_dispatch_packet_t =
  header :: uint16_t
  pkt_setup :: uint16_t
  workgroup_size_x :: uint16_t
  workgroup_size_y :: uint16_t
  workgroup_size_z :: uint16_t
  grid_size_x :: uint32_t
  grid_size_y :: uint32_t
  grid_size_z :: uint32_t
  private_segment_size :: uint32_t
  group_segment_size :: uint32_t
  kernel_object :: uint64_t
  kernarg_address :: handle
  completion_signal :: handle

text \<open>
  Every call that leaves the runtime: the HSA driver, LLVM, the C library.  A call is
  recorded with the arguments that matter to the driver; \<open>Queue_write\<close> is the store of
  a packet into the ring buffer of a queue, which the device reads.  The wait on a signal
  carries all its arguments: the signal, the condition, the value compared with, the
  timeout hint and the wait state.
\<close>

datatype call =
    Hsa_init
  | Hsa_shut_down
  | Hsa_system_get_info hsa_system_info_t
  | Hsa_iterate_agents
  | Hsa_agent_get_info handle hsa_agent_info_t
  | Hsa_isa_get_info_alt handle hsa_isa_info_t
  | Hsa_queue_create handle uint32_t
  | Hsa_amd_profiling_set_profiler_enabled handle
  | Hsa_signal_create int64_t
  | Hsa_signal_destroy handle
  | Hsa_queue_destroy handle
  | Hsa_executable_destroy handle
  | Hsa_agent_iterate_regions handle
  | Hsa_region_get_info handle hsa_region_info_t
  | Hsa_memory_allocate handle size_t
  | Hsa_memory_free handle
  | Hsa_memory_copy handle int64_t handle int64_t int64_t
  | Hsa_signal_add_relaxed handle int64_t
  | Hsa_signal_subtract_relaxed handle int64_t
  | Hsa_signal_store_relaxed handle int64_t
  | Hsa_signal_wait_relaxed handle hsa_signal_condition_t int64_t uint64_t hsa_wait_state_t
  | Hsa_queue_load_write_index_relaxed handle
  | Hsa_queue_store_write_index_relaxed handle uint64_t
  | Queue_write handle uint64_t hsa_kernel_dispatch_packet_t
  | Hsa_code_object_reader_create_from_memory string
  | Hsa_code_object_reader_destroy handle
  | Hsa_executable_create_alt hsa_profile_t hsa_default_float_rounding_mode_t
  | Hsa_executable_load_agent_code_object handle handle handle
  | Hsa_executable_freeze handle
  | Hsa_executable_validate handle
  | Hsa_executable_get_symbol_by_name handle string handle
  | Hsa_executable_symbol_get_info handle hsa_executable_symbol_info_t
  | Hsa_amd_profiling_get_dispatch_time handle handle
  | Thread_detach handle
  | LLVM_initialize_AMDGPU
  | LLVM_parseIR string
  | LLVM_lookupTarget
  | LLVM_createTargetMachine string
  | LLVM_parseIRFile string
  | LLVM_linkInModule string
  | LLVM_run_passes nat
  | Ofstream_write string string
  | System string


section \<open>The state of the HSA platform\<close>

text \<open>
  \<^verbatim>\<open>hsa_queue_t\<close> as the driver hands it out: the capacity \<^verbatim>\<open>size\<close>, the ring buffer
  at \<^verbatim>\<open>base_address\<close> indexed by packet slot, the doorbell signal, and the write index
  the driver keeps for the queue.
\<close>

record hsa_queue_t =
  queue_handle :: handle
  q_size :: uint32_t
  base_address :: "uint64_t \<Rightarrow> hsa_kernel_dispatch_packet_t option"
  doorbell_signal :: handle
  write_index :: uint64_t

type_synonym kernel_tuple = "uint64_t \<times> uint32_t \<times> uint32_t \<times> uint32_t"

text \<open>
  \<^verbatim>\<open>DeviceData\<close> is declared in \<^verbatim>\<open>hsa_platform.h\<close>, which is not among the sources; the
  fields are the ones \<^verbatim>\<open>hsa_platform.cpp\<close> uses.  A null \<^verbatim>\<open>queue\<close> is \<open>None\<close>; a handle
  \<^verbatim>\<open>{ 0 }\<close> is \<open>0\<close>.  \<open>locked\<close> is the state of the device's lock.
\<close>

record DeviceData =
  agent :: handle
  profile :: hsa_profile_t
  float_mode :: hsa_default_float_rounding_mode_t
  isa :: string
  queue :: "hsa_queue_t option"
  signal :: handle
  kernarg_region :: handle
  finegrained_region :: handle
  coarsegrained_region :: handle
  programs :: "string \<rightharpoonup> handle"
  kernels :: "handle \<rightharpoonup> (string \<rightharpoonup> kernel_tuple)"
  locked :: bool

text \<open>
  One record holds the members of \<^verbatim>\<open>HSAPlatform\<close> (\<open>devices\<close>, \<open>files\<close> and
  \<open>frequency\<close> are the members with a trailing underscore in the source, which a HOL
  name cannot end with) and the world it talks to.  Of the
  world: the calls made so far (oldest first), the status the n-th call will return, the
  values of the signals, the files on disk, the contents of allocated memory, and what
  the loader, the code generator and the linker produce.  A call that creates an object
  returns the serial number of the call as its handle, so handles are non-zero and two
  calls never return the same one.
\<close>

record hsa_state =
  trace :: "call list"
  status_of_call :: "nat \<Rightarrow> hsa_status_t"
  signal_value :: "handle \<Rightarrow> int64_t"
  disk :: "string \<rightharpoonup> string"
  memory :: "handle \<Rightarrow> size_t \<Rightarrow> uint8_t"
  symbol_info :: "handle \<Rightarrow> string \<Rightarrow> kernel_tuple"
  llvm_codegen :: "string \<Rightarrow> string \<Rightarrow> string \<Rightarrow> string"
  lld_output :: "string \<Rightarrow> string"
  devices :: "DeviceData list"
  files :: "string \<rightharpoonup> string"
  frequency :: uint64_t
  profiling_enabled :: bool
  RUNTIME_ENABLE_JIT :: bool

type_synonym 'a result = "(error + 'a) \<times> hsa_state"

definition returnE :: "'a \<Rightarrow> hsa_state \<Rightarrow> 'a result" where
  "returnE x s = (Inr x, s)"

definition failE :: "error \<Rightarrow> hsa_state \<Rightarrow> 'a result" where
  "failE e s = (Inl e, s)"

text \<open>Sequencing: an error ends the run, as the process terminates there.\<close>

definition bindE :: "(hsa_state \<Rightarrow> 'a result) \<Rightarrow> ('a \<Rightarrow> hsa_state \<Rightarrow> 'b result)
    \<Rightarrow> hsa_state \<Rightarrow> 'b result" where
  "bindE m f s = (case m s of (Inl e, s') \<Rightarrow> (Inl e, s') | (Inr x, s') \<Rightarrow> f x s')"

text \<open>A call into the world: it is recorded, and returns its status and its serial number.\<close>

definition do_call :: "call \<Rightarrow> hsa_state \<Rightarrow> (hsa_status_t \<times> handle) \<times> hsa_state" where
  "do_call c s =
     ((status_of_call s (length (trace s)), Suc (length (trace s))),
      s\<lparr> trace := trace s @ [c] \<rparr>)"

text \<open>\<^verbatim>\<open>CHECK_HSA(status, name)\<close> after a driver call: any status but success is fatal.\<close>

definition check_hsa_error :: "hsa_status_t \<Rightarrow> string \<Rightarrow> hsa_state \<Rightarrow> unit result" where
  "check_hsa_error err name s =
     (if err \<noteq> HSA_STATUS_SUCCESS then (Inl (HSA_API_Error name err), s) else (Inr (), s))"

definition CHECK_HSA :: "call \<Rightarrow> string \<Rightarrow> hsa_state \<Rightarrow> handle result" where
  "CHECK_HSA c name s =
     (case do_call c s of ((status, h), s') \<Rightarrow>
        (case check_hsa_error status name s' of
           (Inl e, s'') \<Rightarrow> (Inl e, s'')
         | (Inr _, s'') \<Rightarrow> (Inr h, s'')))"

text \<open>A call whose result is not checked, or that returns no status.\<close>

definition call_unchecked :: "call \<Rightarrow> hsa_state \<Rightarrow> (hsa_status_t \<times> handle) result" where
  "call_unchecked c s = (case do_call c s of (r, s') \<Rightarrow> (Inr r, s'))"

text \<open>\<^verbatim>\<open>devices_[dev]\<close>: an index outside the vector is undefined behaviour.\<close>

definition get_device :: "nat \<Rightarrow> hsa_state \<Rightarrow> DeviceData result" where
  "get_device dev s =
     (if dev < length (devices s) then (Inr (devices s ! dev), s) else (Inl OutOfBounds, s))"

definition update_device :: "nat \<Rightarrow> (DeviceData \<Rightarrow> DeviceData) \<Rightarrow> hsa_state \<Rightarrow> hsa_state" where
  "update_device dev f s = s\<lparr> devices := (devices s)[dev := f (devices s ! dev)] \<rparr>"

section \<open>Memory\<close>

definition nullptr :: handle where
  "nullptr = 0"

definition alloc_hsa :: "int64_t \<Rightarrow> handle \<Rightarrow> hsa_state \<Rightarrow> handle result" where
  "alloc_hsa sz region =
     (if sz = 0 then returnE nullptr
      else bindE (CHECK_HSA (Hsa_memory_allocate region sz) ''hsa_memory_allocate()'')
             (\<lambda>mem. returnE mem))"

definition release :: "nat \<Rightarrow> handle \<Rightarrow> hsa_state \<Rightarrow> unit result" where
  "release dev ptr =
     bindE (CHECK_HSA (Hsa_memory_free ptr) ''hsa_memory_free()'') (\<lambda>_. returnE ())"


text \<open>Signals: creation sets the initial value, the relaxed operations change it.\<close>

definition hsa_signal_create :: "int64_t \<Rightarrow> hsa_state \<Rightarrow> handle result" where
  "hsa_signal_create initial_value =
     bindE (CHECK_HSA (Hsa_signal_create initial_value) ''hsa_signal_create()'') (\<lambda>h.
     (\<lambda>s. returnE h (s\<lparr> signal_value := (signal_value s)(h := initial_value) \<rparr>)))"

definition hsa_signal_add_relaxed :: "handle \<Rightarrow> int64_t \<Rightarrow> hsa_state \<Rightarrow> unit result" where
  "hsa_signal_add_relaxed sig v =
     bindE (call_unchecked (Hsa_signal_add_relaxed sig v)) (\<lambda>_.
     (\<lambda>s. returnE () (s\<lparr> signal_value := (signal_value s)(sig := signal_value s sig + v) \<rparr>)))"

definition hsa_signal_store_relaxed :: "handle \<Rightarrow> int64_t \<Rightarrow> hsa_state \<Rightarrow> unit result" where
  "hsa_signal_store_relaxed sig v =
     bindE (call_unchecked (Hsa_signal_store_relaxed sig v)) (\<lambda>_.
     (\<lambda>s. returnE () (s\<lparr> signal_value := (signal_value s)(sig := v) \<rparr>)))"

section \<open>Device discovery\<close>

text \<open>
  What the driver reports about a region and about an agent: the answers to the
  \<^verbatim>\<open>hsa_region_get_info\<close> and \<^verbatim>\<open>hsa_agent_get_info\<close> queries of the callbacks.
\<close>

record region_desc =
  region_handle :: handle
  region_segment :: hsa_region_segment_t
  region_global_flags :: uint32_t
  region_runtime_alloc_allowed :: bool

record agent_desc =
  agent_handle :: handle
  agent_name :: string
  agent_vendor_name :: string
  agent_profile :: hsa_profile_t
  agent_float_mode :: hsa_default_float_rounding_mode_t
  agent_isa :: handle
  agent_isa_name :: string
  agent_device_type :: hsa_device_type_t
  agent_version_major :: uint16_t
  agent_version_minor :: uint16_t
  agent_queue_max_size :: uint32_t
  agent_regions :: "region_desc list"

text \<open>The flag bits of \<^verbatim>\<open>hsa_region_global_flag_t\<close> (from \<^verbatim>\<open>hsa.h\<close>).\<close>

definition HSA_REGION_GLOBAL_FLAG_KERNARG :: uint32_t where
  "HSA_REGION_GLOBAL_FLAG_KERNARG = 1"
definition HSA_REGION_GLOBAL_FLAG_FINE_GRAINED :: uint32_t where
  "HSA_REGION_GLOBAL_FLAG_FINE_GRAINED = 2"
definition HSA_REGION_GLOBAL_FLAG_COARSE_GRAINED :: uint32_t where
  "HSA_REGION_GLOBAL_FLAG_COARSE_GRAINED = 4"

text \<open>
  \<^verbatim>\<open>iterate_regions_callback\<close>, run on the device with index \<open>dev\<close> (the \<^verbatim>\<open>data\<close> pointer).
\<close>

definition iterate_regions_callback :: "region_desc \<Rightarrow> nat \<Rightarrow> hsa_state \<Rightarrow> hsa_status_t result" where
  "iterate_regions_callback region dev =
     bindE (CHECK_HSA (Hsa_region_get_info (region_handle region) HSA_REGION_INFO_SEGMENT)
              ''hsa_region_get_info()'') (\<lambda>_.
     bindE (CHECK_HSA (Hsa_region_get_info (region_handle region) HSA_REGION_INFO_GLOBAL_FLAGS)
              ''hsa_region_get_info()'') (\<lambda>_.
     bindE (\<lambda>s. let flags = region_global_flags region;
                    s1 = (if flags AND HSA_REGION_GLOBAL_FLAG_KERNARG \<noteq> 0
                          then update_device dev (\<lambda>d. d\<lparr> kernarg_region := region_handle region \<rparr>) s
                          else s);
                    s2 = (if flags AND HSA_REGION_GLOBAL_FLAG_FINE_GRAINED \<noteq> 0
                          then update_device dev (\<lambda>d. d\<lparr> finegrained_region := region_handle region \<rparr>) s1
                          else s1);
                    s3 = (if flags AND HSA_REGION_GLOBAL_FLAG_COARSE_GRAINED \<noteq> 0
                          then update_device dev (\<lambda>d. d\<lparr> coarsegrained_region := region_handle region \<rparr>) s2
                          else s2)
                in returnE () s3) (\<lambda>_.
     bindE (CHECK_HSA (Hsa_region_get_info (region_handle region) HSA_REGION_INFO_RUNTIME_ALLOC_ALLOWED)
              ''hsa_region_get_info()'') (\<lambda>_.
     returnE HSA_STATUS_SUCCESS))))"

text \<open>
  \<^verbatim>\<open>hsa_agent_iterate_regions\<close>: the driver calls the callback on every region of the
  agent and stops at the first status that is not success; when the driver call itself
  fails, no callback runs.
\<close>

fun iterate_regions :: "region_desc list \<Rightarrow> nat \<Rightarrow> hsa_state \<Rightarrow> hsa_status_t result" where
  "iterate_regions [] dev s = (Inr HSA_STATUS_SUCCESS, s)"
| "iterate_regions (r # rs) dev s =
     (case iterate_regions_callback r dev s of
        (Inl e, s') \<Rightarrow> (Inl e, s')
      | (Inr st, s') \<Rightarrow>
          (if st \<noteq> HSA_STATUS_SUCCESS then (Inr st, s') else iterate_regions rs dev s'))"

text \<open>\<^verbatim>\<open>name_string.rfind('-')\<close> and the substring after it, or the empty string.\<close>

definition substr_after_last :: "char \<Rightarrow> string \<Rightarrow> string" where
  "substr_after_last c str =
     (if c \<in> set str then rev (takeWhile (\<lambda>x. x \<noteq> c) (rev str)) else [])"

text \<open>
  \<^verbatim>\<open>iterate_agents_callback\<close>.  The two \<^verbatim>\<open>hsa_isa_get_info_alt\<close> calls are not checked;
  the name buffer still holds the vendor name when the second one fails.  The queue the
  driver creates has the requested size, an empty ring buffer and write index 0.
\<close>

definition iterate_agents_callback :: "agent_desc \<Rightarrow> hsa_state \<Rightarrow> hsa_status_t result" where
  "iterate_agents_callback a =
     bindE (CHECK_HSA (Hsa_agent_get_info (agent_handle a) HSA_AGENT_INFO_NAME) ''hsa_agent_get_info()'') (\<lambda>_.
     bindE (CHECK_HSA (Hsa_agent_get_info (agent_handle a) HSA_AGENT_INFO_VENDOR_NAME) ''hsa_agent_get_info()'') (\<lambda>_.
     bindE (CHECK_HSA (Hsa_agent_get_info (agent_handle a) HSA_AGENT_INFO_PROFILE) ''hsa_agent_get_info()'') (\<lambda>_.
     bindE (CHECK_HSA (Hsa_agent_get_info (agent_handle a) HSA_AGENT_INFO_DEFAULT_FLOAT_ROUNDING_MODE) ''hsa_agent_get_info()'') (\<lambda>_.
     bindE (CHECK_HSA (Hsa_agent_get_info (agent_handle a) HSA_AGENT_INFO_ISA) ''hsa_agent_get_info()'') (\<lambda>_.
     bindE (call_unchecked (Hsa_isa_get_info_alt (agent_isa a) HSA_ISA_INFO_NAME_LENGTH)) (\<lambda>_.
     bindE (call_unchecked (Hsa_isa_get_info_alt (agent_isa a) HSA_ISA_INFO_NAME)) (\<lambda>(isa_status, _).
     let name_string = (if isa_status = HSA_STATUS_SUCCESS then agent_isa_name a else agent_vendor_name a);
         isa_name = substr_after_last CHR ''-'' name_string
     in
     bindE (CHECK_HSA (Hsa_agent_get_info (agent_handle a) HSA_AGENT_INFO_DEVICE) ''hsa_agent_get_info()'') (\<lambda>_.
     bindE (CHECK_HSA (Hsa_agent_get_info (agent_handle a) HSA_AGENT_INFO_VERSION_MAJOR) ''hsa_agent_get_info()'') (\<lambda>_.
     bindE (CHECK_HSA (Hsa_agent_get_info (agent_handle a) HSA_AGENT_INFO_VERSION_MINOR) ''hsa_agent_get_info()'') (\<lambda>_.
     bindE (CHECK_HSA (Hsa_agent_get_info (agent_handle a) HSA_AGENT_INFO_QUEUE_MAX_SIZE) ''hsa_agent_get_info()'') (\<lambda>_.
     let queue_size = agent_queue_max_size a in
     bindE (if queue_size > 0
            then bindE (CHECK_HSA (Hsa_queue_create (agent_handle a) queue_size) ''hsa_queue_create()'') (\<lambda>q.
                 bindE (CHECK_HSA (Hsa_amd_profiling_set_profiler_enabled q)
                          ''hsa_amd_profiling_set_profiler_enabled()'') (\<lambda>_.
                 returnE (Some \<lparr> queue_handle = q, q_size = queue_size, base_address = (\<lambda>_. None),
                                 doorbell_signal = q, write_index = 0 \<rparr>)))
            else returnE None) (\<lambda>queue.
     bindE (hsa_signal_create 0) (\<lambda>signal.
     bindE (\<lambda>s. returnE (length (devices s))
                  (s\<lparr> devices := devices s @
                       [\<lparr> agent = agent_handle a, profile = agent_profile a,
                          float_mode = agent_float_mode a, isa = isa_name,
                          queue = queue, signal = signal,
                          kernarg_region = 0, finegrained_region = 0, coarsegrained_region = 0,
                          programs = Map.empty, kernels = Map.empty, locked = False \<rparr>] \<rparr>)) (\<lambda>dev.
     bindE (call_unchecked (Hsa_agent_iterate_regions (agent_handle a))) (\<lambda>(driver_status, _).
     bindE (if driver_status = HSA_STATUS_SUCCESS then iterate_regions (agent_regions a) dev
            else returnE driver_status) (\<lambda>status.
     bindE (check_hsa_error status ''hsa_agent_iterate_regions()'') (\<lambda>_.
     returnE HSA_STATUS_SUCCESS)))))))))))))))))"

fun iterate_agents :: "agent_desc list \<Rightarrow> hsa_state \<Rightarrow> hsa_status_t result" where
  "iterate_agents [] s = (Inr HSA_STATUS_SUCCESS, s)"
| "iterate_agents (a # as) s =
     (case iterate_agents_callback a s of
        (Inl e, s') \<Rightarrow> (Inl e, s')
      | (Inr st, s') \<Rightarrow>
          (if st \<noteq> HSA_STATUS_SUCCESS then (Inr st, s') else iterate_agents as s'))"

text \<open>
  The constructor \<^verbatim>\<open>HSAPlatform::HSAPlatform\<close>, on a machine with the agents \<open>agents\<close> and
  the timestamp frequency \<open>freq\<close>.
\<close>

definition HSAPlatform_init :: "agent_desc list \<Rightarrow> uint64_t \<Rightarrow> hsa_state \<Rightarrow> unit result" where
  "HSAPlatform_init agents freq =
     bindE (CHECK_HSA Hsa_init ''hsa_init()'') (\<lambda>_.
     bindE (CHECK_HSA (Hsa_system_get_info HSA_SYSTEM_INFO_VERSION_MAJOR) ''hsa_system_get_info()'') (\<lambda>_.
     bindE (CHECK_HSA (Hsa_system_get_info HSA_SYSTEM_INFO_VERSION_MINOR) ''hsa_system_get_info()'') (\<lambda>_.
     bindE (CHECK_HSA (Hsa_system_get_info HSA_SYSTEM_INFO_TIMESTAMP_FREQUENCY) ''hsa_system_get_info()'') (\<lambda>_.
     bindE (\<lambda>s. returnE () (s\<lparr> frequency := freq \<rparr>)) (\<lambda>_.
     bindE (call_unchecked Hsa_iterate_agents) (\<lambda>(driver_status, _).
     bindE (if driver_status = HSA_STATUS_SUCCESS then iterate_agents agents
            else returnE driver_status) (\<lambda>status.
     bindE (check_hsa_error status ''hsa_iterate_agents()'') (\<lambda>_.
     returnE ()))))))))"


section \<open>Source files\<close>

definition register_file :: "string \<Rightarrow> string \<Rightarrow> hsa_state \<Rightarrow> hsa_state" where
  "register_file filename program_string s = s\<lparr> files := (files s)(filename \<mapsto> program_string) \<rparr>"

definition load_file :: "string \<Rightarrow> hsa_state \<Rightarrow> string result" where
  "load_file filename s =
     (case files s filename of
        Some str \<Rightarrow> (Inr str, s)
      | None \<Rightarrow>
          (case disk s filename of
             None \<Rightarrow> (Inl (Fatal ''Can not open source file''), s)
           | Some str \<Rightarrow> (Inr str, s)))"

definition store_file :: "string \<Rightarrow> string \<Rightarrow> hsa_state \<Rightarrow> unit result" where
  "store_file filename str =
     bindE (call_unchecked (Ofstream_write filename str)) (\<lambda>(opened, _).
     if opened \<noteq> HSA_STATUS_SUCCESS then failE (Fatal ''Can not open destination file'')
     else (\<lambda>s. returnE () (s\<lparr> disk := (disk s)(filename \<mapsto> str) \<rparr>)))"

section \<open>The JIT pipeline\<close>

text \<open>\<^verbatim>\<open>std::to_string(int)\<close>: decimal digits, with a minus sign for a negative value.\<close>

definition digit_char :: "nat \<Rightarrow> char" where
  "digit_char d = ''0123456789'' ! d"

function digits_of :: "nat \<Rightarrow> string" where
  "digits_of n = (if n < 10 then [digit_char n] else digits_of (n div 10) @ [digit_char (n mod 10)])"
  by pat_completeness auto
termination
  by (relation "measure id") auto

definition to_string :: "int \<Rightarrow> string" where
  "to_string i = (if i < 0 then CHR ''-'' # digits_of (nat (- i)) else digits_of (nat i))"

text \<open>
  \<^verbatim>\<open>std::stoi\<close> on a C string: leading white space, an optional sign, then decimal digits
  up to the first other character.  No digit is \<^verbatim>\<open>std::invalid_argument\<close>, a value
  outside \<^verbatim>\<open>int\<close> is \<^verbatim>\<open>std::out_of_range\<close>; neither is caught, so the process ends.
\<close>

definition isspace :: "char \<Rightarrow> bool" where
  "isspace c = (c \<in> set [CHR '' '', CHR 0x09, CHR 0x0A, CHR 0x0B, CHR 0x0C, CHR 0x0D])"

definition isdigit :: "char \<Rightarrow> bool" where
  "isdigit c = ((of_char CHR ''0'' :: nat) \<le> of_char c \<and> (of_char c :: nat) \<le> of_char CHR ''9'')"

definition digit_value :: "char \<Rightarrow> nat" where
  "digit_value c = of_char c - of_char CHR ''0''"

definition decimal_value :: "string \<Rightarrow> nat" where
  "decimal_value ds = foldl (\<lambda>acc c. 10 * acc + digit_value c) 0 ds"

definition stoi :: "string \<Rightarrow> error + int" where
  "stoi str =
     (let s1 = dropWhile isspace str;
          negative = (s1 \<noteq> [] \<and> hd s1 = CHR ''-'');
          s2 = (if s1 \<noteq> [] \<and> (hd s1 = CHR ''-'' \<or> hd s1 = CHR ''+'') then tl s1 else s1);
          ds = takeWhile isdigit s2;
          v = (if negative then - int (decimal_value ds) else int (decimal_value ds))
      in if ds = [] then Inl Invalid_argument
         else if v < - (2 ^ 31) \<or> 2 ^ 31 - 1 < v then Inl Out_of_range
         else Inr v)"

text \<open>The C string at \<^verbatim>\<open>&cpu[3]\<close>: the characters from index 3 up to the first NUL.\<close>

definition c_str_from :: "nat \<Rightarrow> string \<Rightarrow> string" where
  "c_str_from n str = takeWhile (\<lambda>c. c \<noteq> CHR 0x00) (drop n str)"

definition ocml_config_prefix :: string where
  "ocml_config_prefix =
     [CHR 0x0A] @
     ''        ; Module anydsl ocml config'' @ [CHR 0x0A] @
     ''        define i32 @__oclc_finite_only_opt() alwaysinline { ret i32 0 }'' @ [CHR 0x0A] @
     ''        define i32 @__oclc_unsafe_math_opt() alwaysinline { ret i32 0 }'' @ [CHR 0x0A] @
     ''        define i32 @__oclc_daz_opt() alwaysinline { ret i32 0 }'' @ [CHR 0x0A] @
     ''        define i32 @__oclc_amd_opt() alwaysinline { ret i32 1 }'' @ [CHR 0x0A] @
     ''        define i32 @__oclc_correctly_rounded_sqrt32() alwaysinline { ret i32 1 }'' @ [CHR 0x0A] @
     ''        define i32 @__oclc_ISA_version() alwaysinline { ret i32 ''"

definition get_ocml_config :: "int \<Rightarrow> string" where
  "get_ocml_config target = ocml_config_prefix @ to_string target @ '' }''"

text \<open>
  A call into LLVM or the C library that returns a pointer or an error flag: the status
  of the call says whether it went well (a non-null pointer, no error, exit code 0).
\<close>

definition llvm_call :: "call \<Rightarrow> hsa_state \<Rightarrow> bool result" where
  "llvm_call c = bindE (call_unchecked c) (\<lambda>(status, _). returnE (status = HSA_STATUS_SUCCESS))"

definition ocml_file :: string where "ocml_file = ''/opt/rocm/lib/ocml.amdgcn.bc''"
definition irif_file :: string where "irif_file = ''/opt/rocm/lib/irif.amdgcn.bc''"

text \<open>
  \<^verbatim>\<open>emit_gcn\<close>.  The results of \<^verbatim>\<open>parseIR\<close> on the program, of \<^verbatim>\<open>lookupTarget\<close> and of
  \<^verbatim>\<open>createTargetMachine\<close> are used without a null check, so a null there is a null
  dereference at the next use.  Without \<^verbatim>\<open>RUNTIME_ENABLE_JIT\<close> the function is the stub
  that reports an error.
\<close>

definition emit_gcn :: "string \<Rightarrow> string \<Rightarrow> string \<Rightarrow> nat \<Rightarrow> hsa_state \<Rightarrow> string result" where
  "emit_gcn program cpu filename opt =
     (\<lambda>s0. if \<not> RUNTIME_ENABLE_JIT s0
            then failE (Fatal ''Recompile runtime with RUNTIME_JIT enabled for gcn support.'') s0
            else
     (bindE (call_unchecked LLVM_initialize_AMDGPU) (\<lambda>_.
      bindE (llvm_call (LLVM_parseIR program)) (\<lambda>llvm_module.
      if \<not> llvm_module then failE NullDereference else
      bindE (llvm_call LLVM_lookupTarget) (\<lambda>target.
      if \<not> target then failE NullDereference else
      bindE (llvm_call (LLVM_createTargetMachine cpu)) (\<lambda>machine.
      if take 3 cpu \<noteq> ''gfx'' then failE (Fatal (''Expected gfx ISA, got '' @ cpu)) else
      (case stoi (c_str_from 3 cpu) of
         Inl e \<Rightarrow> failE e
       | Inr target_version \<Rightarrow>
      let ocml_config = get_ocml_config target_version in
      bindE (llvm_call (LLVM_parseIRFile ocml_file)) (\<lambda>ocml_module.
      if \<not> ocml_module then failE (Fatal ''Can not create ocml module'') else
      bindE (llvm_call (LLVM_parseIRFile irif_file)) (\<lambda>irif_module.
      if \<not> irif_module then failE (Fatal ''Can not create irif module'') else
      bindE (llvm_call (LLVM_parseIR ocml_config)) (\<lambda>config_module.
      if \<not> config_module then failE (Fatal ''Can not create ocml config module'') else
      if \<not> machine then failE NullDereference else
      bindE (llvm_call (LLVM_linkInModule ocml_config)) (\<lambda>linked.
      if \<not> linked then failE (Fatal ''Can not link config into module'') else
      bindE (llvm_call (LLVM_linkInModule ocml_file)) (\<lambda>linked.
      if \<not> linked then failE (Fatal ''Can not link ocml into module'') else
      bindE (llvm_call (LLVM_linkInModule irif_file)) (\<lambda>linked.
      if \<not> linked then failE (Fatal ''Can not link irif into module'') else
      bindE (call_unchecked (LLVM_run_passes opt)) (\<lambda>_.
      bindE (\<lambda>s. returnE (llvm_codegen s program cpu ocml_config) s) (\<lambda>obj.
      let obj_file = filename @ ''.obj'';
          gcn_file = filename @ ''.gcn'';
          lld_cmd = ''ld.lld -shared '' @ obj_file @ '' -o '' @ gcn_file
      in
      bindE (store_file obj_file obj) (\<lambda>_.
      bindE (llvm_call (System lld_cmd)) (\<lambda>linked.
      if \<not> linked then failE (Fatal ''Generating gcn using lld'') else
      bindE (\<lambda>s. returnE () (s\<lparr> disk := (disk s)(gcn_file \<mapsto> lld_output s obj) \<rparr>)) (\<lambda>_.
      load_file gcn_file))))))))))))))))) s0)"

definition compile_gcn :: "nat \<Rightarrow> string \<Rightarrow> string \<Rightarrow> hsa_state \<Rightarrow> string result" where
  "compile_gcn dev filename program_string =
     bindE (get_device dev) (\<lambda>d. emit_gcn program_string (isa d) filename 3)"


section \<open>The program cache and the kernel cache\<close>

text \<open>
  Modelled from the spec: the per-device exclusive lock.  \<^verbatim>\<open>DeviceData::lock\<close> and
  \<^verbatim>\<open>unlock\<close> are defined in \<^verbatim>\<open>hsa_platform.h\<close>, which is not among the sources.  A
  thread that asks for a lock that is held does not proceed.
\<close>

definition lock :: "nat \<Rightarrow> hsa_state \<Rightarrow> unit result" where
  "lock dev s =
     (if locked (devices s ! dev) then (Inl Blocked, s)
      else (Inr (), update_device dev (\<lambda>d. d\<lparr> locked := True \<rparr>) s))"

definition unlock :: "nat \<Rightarrow> hsa_state \<Rightarrow> unit result" where
  "unlock dev s = (Inr (), update_device dev (\<lambda>d. d\<lparr> locked := False \<rparr>) s)"

definition file_extension :: "string \<Rightarrow> string" where
  "file_extension filename = substr_after_last CHR ''.'' filename"

text \<open>
  \<^verbatim>\<open>load_kernel\<close> is written as the sections the lock cuts it into.  First: take the
  lock and look the file name up in \<^verbatim>\<open>programs\<close>; on a miss the lock is released.
\<close>

definition program_lookup :: "nat \<Rightarrow> string \<Rightarrow> hsa_state \<Rightarrow> handle option result" where
  "program_lookup dev filename =
     bindE (get_device dev) (\<lambda>_.
     bindE (lock dev) (\<lambda>_.
     (\<lambda>s. case programs (devices s ! dev) filename of
             None \<Rightarrow> bindE (unlock dev) (\<lambda>_. returnE None) s
           | Some executable \<Rightarrow> returnE (Some executable) s)))"

text \<open>Second, without the lock: read or compile the code object and load it.\<close>

definition build_executable :: "nat \<Rightarrow> string \<Rightarrow> hsa_state \<Rightarrow> handle result" where
  "build_executable dev filename =
     (let ext = file_extension filename in
      if ext \<noteq> ''gcn'' \<and> ext \<noteq> ''amdgpu''
      then failE (Fatal ''Incorrect extension for kernel file'')
      else
        bindE (\<lambda>s. let found = (disk s filename \<noteq> None \<or> files s filename \<noteq> None) in
                if ext = ''gcn'' \<and> found then load_file filename s
                else if ext = ''amdgpu'' \<and> found
                then bindE (load_file filename) (\<lambda>src. compile_gcn dev filename src) s
                else failE (Fatal ''Could not find kernel file'') s) (\<lambda>gcn.
        bindE (CHECK_HSA (Hsa_code_object_reader_create_from_memory gcn)
                 ''hsa_code_object_reader_create_from_file()'') (\<lambda>reader.
        bindE (get_device dev) (\<lambda>d.
        bindE (CHECK_HSA (Hsa_executable_create_alt HSA_PROFILE_FULL (float_mode d))
                 ''hsa_executable_create_alt()'') (\<lambda>executable.
        bindE (CHECK_HSA (Hsa_executable_load_agent_code_object executable (agent d) reader)
                 ''hsa_executable_load_agent_code_object()'') (\<lambda>_.
        bindE (CHECK_HSA (Hsa_executable_freeze executable) ''hsa_executable_freeze()'') (\<lambda>_.
        bindE (CHECK_HSA (Hsa_code_object_reader_destroy reader)
                 ''hsa_code_object_reader_destroy()'') (\<lambda>_.
        bindE (CHECK_HSA (Hsa_executable_validate executable) ''hsa_executable_validate()'') (\<lambda>_.
        returnE executable)))))))))"

text \<open>Third: take the lock again and store, \<^verbatim>\<open>prog_cache[filename] = executable\<close>.\<close>

definition program_publish :: "nat \<Rightarrow> string \<Rightarrow> handle \<Rightarrow> hsa_state \<Rightarrow> unit result" where
  "program_publish dev filename executable =
     bindE (lock dev) (\<lambda>_.
     (\<lambda>s. returnE ()
        (update_device dev (\<lambda>d. d\<lparr> programs := (programs d)(filename \<mapsto> executable) \<rparr>) s)))"

text \<open>
  Fourth, with the lock held: \<^verbatim>\<open>kernel_cache[executable.handle]\<close>, which inserts an empty
  map for a new key, and the look-up of the kernel name; on a miss the lock is released.
\<close>

definition kernel_map_of :: "DeviceData \<Rightarrow> handle \<Rightarrow> (string \<rightharpoonup> kernel_tuple)" where
  "kernel_map_of d executable = (case kernels d executable of None \<Rightarrow> Map.empty | Some m \<Rightarrow> m)"

definition kernel_lookup :: "nat \<Rightarrow> handle \<Rightarrow> string \<Rightarrow> hsa_state \<Rightarrow> kernel_tuple option result" where
  "kernel_lookup dev executable kernelname =
     (\<lambda>s. let s1 = update_device dev
                      (\<lambda>d. d\<lparr> kernels := (kernels d)(executable \<mapsto> kernel_map_of d executable) \<rparr>) s
          in case kernel_map_of (devices s1 ! dev) executable kernelname of
               None \<Rightarrow> bindE (unlock dev) (\<lambda>_. returnE None) s1
             | Some t \<Rightarrow> returnE (Some t) s1)"

text \<open>Fifth, without the lock: ask the loader for the kernel symbol and its sizes.\<close>

definition kernel_resolve :: "nat \<Rightarrow> handle \<Rightarrow> string \<Rightarrow> hsa_state \<Rightarrow> kernel_tuple result" where
  "kernel_resolve dev executable kernelname =
     bindE (get_device dev) (\<lambda>d.
     bindE (CHECK_HSA (Hsa_executable_get_symbol_by_name executable kernelname (agent d))
              ''hsa_executable_get_symbol_by_name()'') (\<lambda>kernel_symbol.
     bindE (CHECK_HSA (Hsa_executable_symbol_get_info kernel_symbol
              HSA_EXECUTABLE_SYMBOL_INFO_KERNEL_OBJECT) ''hsa_executable_symbol_get_info()'') (\<lambda>_.
     bindE (CHECK_HSA (Hsa_executable_symbol_get_info kernel_symbol
              HSA_EXECUTABLE_SYMBOL_INFO_KERNEL_KERNARG_SEGMENT_SIZE) ''hsa_executable_symbol_get_info()'') (\<lambda>_.
     bindE (CHECK_HSA (Hsa_executable_symbol_get_info kernel_symbol
              HSA_EXECUTABLE_SYMBOL_INFO_KERNEL_GROUP_SEGMENT_SIZE) ''hsa_executable_symbol_get_info()'') (\<lambda>_.
     bindE (CHECK_HSA (Hsa_executable_symbol_get_info kernel_symbol
              HSA_EXECUTABLE_SYMBOL_INFO_KERNEL_PRIVATE_SEGMENT_SIZE) ''hsa_executable_symbol_get_info()'') (\<lambda>_.
     (\<lambda>s. returnE (symbol_info s executable kernelname) s)))))))"

text \<open>Sixth: take the lock again and \<^verbatim>\<open>emplace\<close>, which keeps an entry that is there.\<close>

definition emplace :: "('k \<rightharpoonup> 'v) \<Rightarrow> 'k \<Rightarrow> 'v \<Rightarrow> ('k \<rightharpoonup> 'v)" where
  "emplace m k v = (case m k of None \<Rightarrow> m(k \<mapsto> v) | Some _ \<Rightarrow> m)"

definition kernel_publish :: "nat \<Rightarrow> handle \<Rightarrow> string \<Rightarrow> kernel_tuple \<Rightarrow> hsa_state \<Rightarrow> unit result" where
  "kernel_publish dev executable kernelname t =
     bindE (lock dev) (\<lambda>_.
     (\<lambda>s. returnE ()
        (update_device dev
           (\<lambda>d. d\<lparr> kernels := (kernels d)(executable \<mapsto>
                        emplace (kernel_map_of d executable) kernelname t) \<rparr>) s)))"

definition load_kernel :: "nat \<Rightarrow> string \<Rightarrow> string \<Rightarrow> hsa_state \<Rightarrow> kernel_tuple result" where
  "load_kernel dev filename kernelname =
     bindE (program_lookup dev filename) (\<lambda>prog_it.
     bindE (case prog_it of
              None \<Rightarrow>
                bindE (build_executable dev filename) (\<lambda>executable.
                bindE (program_publish dev filename executable) (\<lambda>_.
                returnE executable))
            | Some executable \<Rightarrow> returnE executable) (\<lambda>executable.
     bindE (kernel_lookup dev executable kernelname) (\<lambda>kernel_it.
     bindE (case kernel_it of
              None \<Rightarrow>
                bindE (kernel_resolve dev executable kernelname) (\<lambda>t.
                bindE (kernel_publish dev executable kernelname t) (\<lambda>_.
                returnE t))
            | Some t \<Rightarrow> returnE t) (\<lambda>t.
     bindE (unlock dev) (\<lambda>_.
     returnE t)))))"

section \<open>Kernel launch\<close>

text \<open>
  The header and setup words of the packet, with the constants of \<^verbatim>\<open>hsa.h\<close>: fence scope
  system (2) at the acquire (bit 9) and release (bit 11) fields, packet type kernel
  dispatch (2) at bit 0, and three dimensions at bit 0 of the setup word.
\<close>

definition aql_header :: uint16_t where
  "aql_header = (push_bit 9 2) OR (push_bit 11 2) OR (push_bit 0 2)"

definition aql_setup :: uint16_t where
  "aql_setup = push_bit 0 3"

text \<open>
  The write to the command queue: the packet goes to slot \<^verbatim>\<open>index & queue_mask\<close> of the
  ring buffer, the write index becomes \<^verbatim>\<open>index + 1\<close>, and the doorbell gets \<^verbatim>\<open>index\<close>.
\<close>

definition write_to_command_queue :: "nat \<Rightarrow> hsa_kernel_dispatch_packet_t \<Rightarrow> hsa_state \<Rightarrow> unit result" where
  "write_to_command_queue dev aql =
     bindE (get_device dev) (\<lambda>d.
     case queue d of
       None \<Rightarrow> failE NullDereference
     | Some q \<Rightarrow>
         bindE (call_unchecked (Hsa_queue_load_write_index_relaxed (queue_handle q))) (\<lambda>_.
         let index = write_index q;
             queue_mask = q_size q - 1;
             slot = index AND ucast queue_mask
         in
         bindE (call_unchecked (Queue_write (queue_handle q) slot aql)) (\<lambda>_.
         bindE (\<lambda>s. returnE () (update_device dev
                   (\<lambda>d. d\<lparr> queue := Some (q\<lparr> base_address := (base_address q)(slot \<mapsto> aql) \<rparr>) \<rparr>) s)) (\<lambda>_.
         bindE (call_unchecked (Hsa_queue_store_write_index_relaxed (queue_handle q) (index + 1))) (\<lambda>_.
         bindE (\<lambda>s. returnE () (update_device dev
                   (\<lambda>d. d\<lparr> queue := Some (q\<lparr> base_address := (base_address q)(slot \<mapsto> aql),
                                             write_index := index + 1 \<rparr>) \<rparr>) s)) (\<lambda>_.
         hsa_signal_store_relaxed (doorbell_signal q) index))))))"

text \<open>
  \<^verbatim>\<open>HSAPlatform::launch_kernel\<close>.  With profiling enabled the call ends by detaching a
  thread that waits for the launch signal; the thread is recorded as started and its
  body is not part of the call.
\<close>

definition launch_kernel :: "nat \<Rightarrow> string \<Rightarrow> string \<Rightarrow> uint32_t \<times> uint32_t \<times> uint32_t
    \<Rightarrow> uint32_t \<times> uint32_t \<times> uint32_t \<Rightarrow> kernel_arg list \<Rightarrow> hsa_state \<Rightarrow> unit result" where
  "launch_kernel dev file name grid block args =
     bindE (get_device dev) (\<lambda>d0.
     if queue d0 = None then failE (Fatal ''The selected HSA device cannot execute kernels'') else
     bindE (load_kernel dev file name)
       (\<lambda>(kernel, kernarg_segment_size, group_segment_size', private_segment_size').
     bindE (get_device dev) (\<lambda>d.
     bindE (CHECK_HSA (Hsa_memory_allocate (kernarg_region d) (ucast kernarg_segment_size))
              ''hsa_memory_allocate()'') (\<lambda>kernarg_address'.
     bindE (\<lambda>s. case pack_args args (pack_init (memory s kernarg_address')) of
                  Inl e \<Rightarrow> failE e s
                | Inr st \<Rightarrow> returnE (offset st)
                             (s\<lparr> memory := (memory s)(kernarg_address' := kernarg st) \<rparr>)) (\<lambda>_.
     bindE (hsa_signal_add_relaxed (signal d) 1) (\<lambda>_.
     bindE (\<lambda>s. if profiling_enabled s then hsa_signal_create 1 s else returnE (signal d) s)
       (\<lambda>launch_signal.
     let aql = \<lparr> header = aql_header, pkt_setup = aql_setup,
                 workgroup_size_x = ucast (fst block),
                 workgroup_size_y = ucast (fst (snd block)),
                 workgroup_size_z = ucast (snd (snd block)),
                 grid_size_x = fst grid,
                 grid_size_y = fst (snd grid),
                 grid_size_z = snd (snd grid),
                 private_segment_size = private_segment_size',
                 group_segment_size = group_segment_size',
                 kernel_object = kernel,
                 kernarg_address = kernarg_address',
                 completion_signal = launch_signal \<rparr>
     in
     bindE (write_to_command_queue dev aql) (\<lambda>_.
     (\<lambda>s. if profiling_enabled s
          then bindE (call_unchecked (Thread_detach launch_signal)) (\<lambda>_. returnE ()) s
          else returnE () s)))))))))"

text \<open>
  \<^verbatim>\<open>HSAPlatform::synchronize\<close>: one wait on the signal of the device, for the signal to
  equal 0 and with no bound on the time.  The value the wait returns is compared with 0
  only for a debug message.
\<close>

definition synchronize :: "nat \<Rightarrow> hsa_state \<Rightarrow> unit result" where
  "synchronize dev =
     bindE (get_device dev) (\<lambda>d.
     bindE (call_unchecked (Hsa_signal_wait_relaxed (signal d) HSA_SIGNAL_CONDITION_EQ 0
              UINT64_MAX HSA_WAIT_STATE_ACTIVE)) (\<lambda>_.
     returnE ()))"


section \<open>The CUDA driver runtime (\<^verbatim>\<open>cu_runtime.cpp\<close>)\<close>

record dim3 =
  dim_x :: uint32_t
  dim_y :: uint32_t
  dim_z :: uint32_t

datatype cu_call =
    CuEventCreate
  | CuEventRecord
  | CuLaunchKernel handle dim3 dim3 "handle list"
  | CuCtxSynchronize
  | CuEventSynchronize
  | CuEventElapsedTime
  | CuEventDestroy

text \<open>
  The global variables of the file that the launch path uses, the driver calls made so
  far, and whether the n-th driver call returns \<^verbatim>\<open>CUDA_SUCCESS\<close>.
\<close>

record cu_state =
  cuFunction :: handle
  cuArgs :: "handle list"
  cuArgIdx :: int
  cuArgIdxMax :: int
  cuDimProblem :: dim3
  cuDimBlock :: dim3
  cu_trace :: "cu_call list"
  cu_success :: "nat \<Rightarrow> bool"

definition set_problem_size :: "size_t \<Rightarrow> size_t \<Rightarrow> size_t \<Rightarrow> cu_state \<Rightarrow> cu_state" where
  "set_problem_size size_x size_y size_z s =
     s\<lparr> cuDimProblem := \<lparr> dim_x = ucast size_x, dim_y = ucast size_y, dim_z = ucast size_z \<rparr> \<rparr>"

definition set_config_size :: "size_t \<Rightarrow> size_t \<Rightarrow> size_t \<Rightarrow> cu_state \<Rightarrow> cu_state" where
  "set_config_size size_x size_y size_z s =
     s\<lparr> cuDimBlock := \<lparr> dim_x = ucast size_x, dim_y = ucast size_y, dim_z = ucast size_z \<rparr> \<rparr>"

text \<open>
  \<^verbatim>\<open>set_kernel_arg\<close>: the argument array grows by \<^verbatim>\<open>realloc\<close> when the index passes its
  maximum, and the pointer is stored at the new index.
\<close>

definition set_kernel_arg :: "handle \<Rightarrow> cu_state \<Rightarrow> cu_state" where
  "set_kernel_arg host s =
     (let idx = cuArgIdx s + 1;
          grown = (if idx > cuArgIdxMax s
                   then cuArgs s @ replicate (nat idx - length (cuArgs s)) 0 else cuArgs s)
      in s\<lparr> cuArgIdx := idx,
            cuArgIdxMax := (if idx > cuArgIdxMax s then idx else cuArgIdxMax s),
            cuArgs := grown[nat (idx - 1) := host] \<rparr>)"

definition cu_call :: "cu_call \<Rightarrow> cu_state \<Rightarrow> bool \<times> cu_state" where
  "cu_call c s = (cu_success s (length (cu_trace s)), s\<lparr> cu_trace := cu_trace s @ [c] \<rparr>)"

text \<open>\<^verbatim>\<open>checkErrDrv\<close>: anything but \<^verbatim>\<open>CUDA_SUCCESS\<close> prints the error and exits.\<close>

definition checkErrDrv :: "bool \<times> cu_state \<Rightarrow> string \<Rightarrow> (error + unit) \<times> cu_state" where
  "checkErrDrv r name = (if fst r then (Inr (), snd r) else (Inl (Fatal name), snd r))"

text \<open>Unsigned division of two \<^verbatim>\<open>unsigned int\<close>; a zero divisor traps.\<close>

definition udiv :: "uint32_t \<Rightarrow> uint32_t \<Rightarrow> error + uint32_t" where
  "udiv a b = (if b = 0 then Inl DivisionByZero else Inr (a div b))"

definition compute_grid :: "dim3 \<Rightarrow> dim3 \<Rightarrow> error + dim3" where
  "compute_grid problem block =
     (case udiv (dim_x problem) (dim_x block) of Inl e \<Rightarrow> Inl e | Inr gx \<Rightarrow>
      case udiv (dim_y problem) (dim_y block) of Inl e \<Rightarrow> Inl e | Inr gy \<Rightarrow>
      case udiv (dim_z problem) (dim_z block) of Inl e \<Rightarrow> Inl e | Inr gz \<Rightarrow>
        Inr \<lparr> dim_x = gx, dim_y = gy, dim_z = gz \<rparr>)"

text \<open>
  \<^verbatim>\<open>launch_kernel\<close> of \<^verbatim>\<open>cu_runtime.cpp\<close>.  The results of the event calls are not
  checked; the launch and the synchronisation after it are.
\<close>

definition cu_launch_kernel :: "string \<Rightarrow> cu_state \<Rightarrow> (error + unit) \<times> cu_state" where
  "cu_launch_kernel kernel_name s =
     (let error_string = ''cuLaunchKernel('' @ kernel_name @ '')'' in
      case compute_grid (cuDimProblem s) (cuDimBlock s) of
        Inl e \<Rightarrow> (Inl e, s)
      | Inr grid \<Rightarrow>
          (let s1 = snd (cu_call CuEventCreate s);
               s2 = snd (cu_call CuEventCreate s1);
               s3 = snd (cu_call CuEventRecord s2)
           in case checkErrDrv (cu_call (CuLaunchKernel (cuFunction s3) grid (cuDimBlock s3) (cuArgs s3)) s3)
                     error_string of
                (Inl e, s4) \<Rightarrow> (Inl e, s4)
              | (Inr _, s4) \<Rightarrow>
                  (case checkErrDrv (cu_call CuCtxSynchronize s4) error_string of
                     (Inl e, s5) \<Rightarrow> (Inl e, s5)
                   | (Inr _, s5) \<Rightarrow>
                       (let s6 = snd (cu_call CuEventRecord s5);
                            s7 = snd (cu_call CuEventSynchronize s6);
                            s8 = snd (cu_call CuEventElapsedTime s7);
                            s9 = snd (cu_call CuEventDestroy s8);
                            s10 = snd (cu_call CuEventDestroy s9)
                        in (Inr (), s10\<lparr> cuArgIdx := 0 \<rparr>)))))"

section \<open>Notions used in the statements\<close>

text \<open>
  \<open>emits P m\<close>: whatever the state, the calls that \<open>m\<close> adds to the list of calls all
  satisfy \<open>P\<close>, and it removes none.
\<close>

definition emits :: "(call \<Rightarrow> bool) \<Rightarrow> (hsa_state \<Rightarrow> 'a result) \<Rightarrow> bool" where
  "emits P m \<longleftrightarrow> (\<forall>s. \<exists>evs. trace (snd (m s)) = trace s @ evs \<and> list_all P evs)"








text \<open>
  Kinds of calls: those of the compile-and-load pipeline (\<^verbatim>\<open>emit_gcn\<close> and the loading of
  the code object), the symbol queries of the kernel cache, waiting on a signal, and the
  operations on a command queue and its doorbell.
\<close>

definition is_pipeline_call :: "call \<Rightarrow> bool" where
  "is_pipeline_call c =
     (case c of
        LLVM_initialize_AMDGPU \<Rightarrow> True
      | LLVM_parseIR _ \<Rightarrow> True
      | LLVM_lookupTarget \<Rightarrow> True
      | LLVM_createTargetMachine _ \<Rightarrow> True
      | LLVM_parseIRFile _ \<Rightarrow> True
      | LLVM_linkInModule _ \<Rightarrow> True
      | LLVM_run_passes _ \<Rightarrow> True
      | Ofstream_write _ _ \<Rightarrow> True
      | System _ \<Rightarrow> True
      | Hsa_code_object_reader_create_from_memory _ \<Rightarrow> True
      | Hsa_code_object_reader_destroy _ \<Rightarrow> True
      | Hsa_executable_create_alt _ _ \<Rightarrow> True
      | Hsa_executable_load_agent_code_object _ _ _ \<Rightarrow> True
      | Hsa_executable_freeze _ \<Rightarrow> True
      | Hsa_executable_validate _ \<Rightarrow> True
      | _ \<Rightarrow> False)"

definition is_symbol_call :: "call \<Rightarrow> bool" where
  "is_symbol_call c =
     (case c of
        Hsa_executable_get_symbol_by_name _ _ _ \<Rightarrow> True
      | Hsa_executable_symbol_get_info _ _ \<Rightarrow> True
      | _ \<Rightarrow> False)"

definition is_signal_wait :: "call \<Rightarrow> bool" where
  "is_signal_wait c = (case c of Hsa_signal_wait_relaxed _ _ _ _ _ \<Rightarrow> True | _ \<Rightarrow> False)"

definition is_queue_call :: "call \<Rightarrow> bool" where
  "is_queue_call c =
     (case c of
        Hsa_queue_load_write_index_relaxed _ \<Rightarrow> True
      | Queue_write _ _ _ \<Rightarrow> True
      | Hsa_queue_store_write_index_relaxed _ _ \<Rightarrow> True
      | Hsa_signal_store_relaxed _ _ \<Rightarrow> True
      | _ \<Rightarrow> False)"

text \<open>The calls \<^verbatim>\<open>load_kernel\<close> can make, and those of the rest of the launch.\<close>

definition is_load_kernel_call :: "call \<Rightarrow> bool" where
  "is_load_kernel_call c \<longleftrightarrow> is_pipeline_call c \<or> is_symbol_call c"

text \<open>
  Parts of the state that \<^verbatim>\<open>load_kernel\<close> leaves alone: what the launch reads after it
  (\<open>launch_frame\<close>), and, once a program is cached, the program cache and the registered
  files (\<open>cache_frame\<close>).  \<open>preserves g m\<close>: running \<open>m\<close> does not change \<open>g\<close> of the state.
\<close>

definition launch_frame :: "hsa_state \<Rightarrow>
    hsa_queue_t option list \<times> handle list \<times> handle list \<times> (handle \<Rightarrow> int64_t)
      \<times> (handle \<Rightarrow> size_t \<Rightarrow> uint8_t) \<times> bool \<times> (nat \<Rightarrow> hsa_status_t)
      \<times> (handle \<Rightarrow> string \<Rightarrow> kernel_tuple)" where
  "launch_frame s =
     (map queue (devices s), map signal (devices s), map kernarg_region (devices s),
      signal_value s, memory s, profiling_enabled s, status_of_call s, symbol_info s)"

definition cache_frame :: "hsa_state \<Rightarrow> (string \<rightharpoonup> handle) list \<times> (string \<rightharpoonup> string)
     \<times> (handle \<Rightarrow> string \<Rightarrow> kernel_tuple)" where
  "cache_frame s = (map programs (devices s), files s, symbol_info s)"

definition preserves :: "(hsa_state \<Rightarrow> 'x) \<Rightarrow> (hsa_state \<Rightarrow> 'a result) \<Rightarrow> bool" where
  "preserves g m \<longleftrightarrow> (\<forall>s. g (snd (m s)) = g s)"

definition frame_ok :: "(hsa_state \<Rightarrow> 'x) \<Rightarrow> bool" where
  "frame_ok g \<longleftrightarrow>
     (\<forall>s t. g (s\<lparr> trace := t \<rparr>) = g s) \<and> (\<forall>s t. g (s\<lparr> disk := t \<rparr>) = g s)
     \<and> (\<forall>s dev b. g (update_device dev (\<lambda>d. d\<lparr> locked := b \<rparr>) s) = g s)
     \<and> (\<forall>s dev f. g (update_device dev (\<lambda>d. d\<lparr> kernels := f d \<rparr>) s) = g s)"

definition ignores_programs :: "(hsa_state \<Rightarrow> 'x) \<Rightarrow> bool" where
  "ignores_programs g \<longleftrightarrow>
     (\<forall>s dev f. g (update_device dev (\<lambda>d. d\<lparr> programs := f d \<rparr>) s) = g s)"

text \<open>
  The packet \<^verbatim>\<open>launch_kernel\<close> builds, and the part of \<^verbatim>\<open>launch_kernel\<close> that follows
  \<^verbatim>\<open>load_kernel\<close> (lemma \<open>launch_kernel_eq\<close>).
\<close>

definition aql_packet :: "uint32_t \<times> uint32_t \<times> uint32_t \<Rightarrow> uint32_t \<times> uint32_t \<times> uint32_t
    \<Rightarrow> kernel_tuple \<Rightarrow> handle \<Rightarrow> handle \<Rightarrow> hsa_kernel_dispatch_packet_t" where
  "aql_packet grid block t kernarg_address' launch_signal =
     (case t of (kernel', kernarg_segment_size, group_segment_size', private_segment_size') \<Rightarrow>
       \<lparr> header = aql_header, pkt_setup = aql_setup,
         workgroup_size_x = ucast (fst block),
         workgroup_size_y = ucast (fst (snd block)),
         workgroup_size_z = ucast (snd (snd block)),
         grid_size_x = fst grid,
         grid_size_y = fst (snd grid),
         grid_size_z = snd (snd grid),
         private_segment_size = private_segment_size',
         group_segment_size = group_segment_size',
         kernel_object = kernel',
         kernarg_address = kernarg_address',
         completion_signal = launch_signal \<rparr>)"

definition submit_kernel :: "nat \<Rightarrow> uint32_t \<times> uint32_t \<times> uint32_t
    \<Rightarrow> uint32_t \<times> uint32_t \<times> uint32_t \<Rightarrow> kernel_arg list \<Rightarrow> kernel_tuple
    \<Rightarrow> hsa_state \<Rightarrow> unit result" where
  "submit_kernel dev grid block args t =
     bindE (get_device dev) (\<lambda>d.
     bindE (CHECK_HSA (Hsa_memory_allocate (kernarg_region d) (ucast (fst (snd t))))
              ''hsa_memory_allocate()'') (\<lambda>kernarg_address'.
     bindE (\<lambda>s. case pack_args args (pack_init (memory s kernarg_address')) of
                  Inl e \<Rightarrow> failE e s
                | Inr st \<Rightarrow> returnE (offset st)
                             (s\<lparr> memory := (memory s)(kernarg_address' := kernarg st) \<rparr>)) (\<lambda>_.
     bindE (hsa_signal_add_relaxed (signal d) 1) (\<lambda>_.
     bindE (\<lambda>s. if profiling_enabled s then hsa_signal_create 1 s else returnE (signal d) s)
       (\<lambda>launch_signal.
     bindE (write_to_command_queue dev (aql_packet grid block t kernarg_address' launch_signal)) (\<lambda>_.
     (\<lambda>s. if profiling_enabled s
          then bindE (call_unchecked (Thread_detach launch_signal)) (\<lambda>_. returnE ()) s
          else returnE () s)))))))"

definition is_submit_call :: "call \<Rightarrow> bool" where
  "is_submit_call c =
     (case c of
        Hsa_memory_allocate _ _ \<Rightarrow> True
      | Hsa_signal_add_relaxed _ _ \<Rightarrow> True
      | Hsa_signal_create _ \<Rightarrow> True
      | Thread_detach _ \<Rightarrow> True
      | _ \<Rightarrow> is_queue_call c)"

text \<open>
  The part of \<^verbatim>\<open>load_kernel\<close> that follows the choice of the executable (lemma
  \<open>load_kernel_eq\<close>).
\<close>

definition load_kernel_cached :: "nat \<Rightarrow> handle \<Rightarrow> string \<Rightarrow> hsa_state \<Rightarrow> kernel_tuple result" where
  "load_kernel_cached dev executable kernelname =
     bindE (kernel_lookup dev executable kernelname) (\<lambda>kernel_it.
     bindE (case kernel_it of
              None \<Rightarrow>
                bindE (kernel_resolve dev executable kernelname) (\<lambda>t.
                bindE (kernel_publish dev executable kernelname t) (\<lambda>_.
                returnE t))
            | Some t \<Rightarrow> returnE t) (\<lambda>t.
     bindE (unlock dev) (\<lambda>_.
     returnE t)))"

text \<open>The calls that create a queue and those that create a signal.\<close>

definition is_queue_create :: "call \<Rightarrow> bool" where
  "is_queue_create c = (case c of Hsa_queue_create _ _ \<Rightarrow> True | _ \<Rightarrow> False)"

definition is_signal_create :: "call \<Rightarrow> bool" where
  "is_signal_create c = (case c of Hsa_signal_create _ \<Rightarrow> True | _ \<Rightarrow> False)"

text \<open>
  The three parts of \<^verbatim>\<open>iterate_agents_callback\<close> (lemma \<open>iterate_agents_callback_eq\<close>): the
  queries, the creation of the queue and of the signal with the new entry of the device
  table, and the iteration over the regions.
\<close>

definition query_agent :: "agent_desc \<Rightarrow> hsa_state \<Rightarrow> string result" where
  "query_agent a =
     bindE (CHECK_HSA (Hsa_agent_get_info (agent_handle a) HSA_AGENT_INFO_NAME) ''hsa_agent_get_info()'') (\<lambda>_.
     bindE (CHECK_HSA (Hsa_agent_get_info (agent_handle a) HSA_AGENT_INFO_VENDOR_NAME) ''hsa_agent_get_info()'') (\<lambda>_.
     bindE (CHECK_HSA (Hsa_agent_get_info (agent_handle a) HSA_AGENT_INFO_PROFILE) ''hsa_agent_get_info()'') (\<lambda>_.
     bindE (CHECK_HSA (Hsa_agent_get_info (agent_handle a) HSA_AGENT_INFO_DEFAULT_FLOAT_ROUNDING_MODE) ''hsa_agent_get_info()'') (\<lambda>_.
     bindE (CHECK_HSA (Hsa_agent_get_info (agent_handle a) HSA_AGENT_INFO_ISA) ''hsa_agent_get_info()'') (\<lambda>_.
     bindE (call_unchecked (Hsa_isa_get_info_alt (agent_isa a) HSA_ISA_INFO_NAME_LENGTH)) (\<lambda>_.
     bindE (call_unchecked (Hsa_isa_get_info_alt (agent_isa a) HSA_ISA_INFO_NAME)) (\<lambda>(isa_status, _).
     let name_string = (if isa_status = HSA_STATUS_SUCCESS then agent_isa_name a else agent_vendor_name a);
         isa_name = substr_after_last CHR ''-'' name_string
     in
     bindE (CHECK_HSA (Hsa_agent_get_info (agent_handle a) HSA_AGENT_INFO_DEVICE) ''hsa_agent_get_info()'') (\<lambda>_.
     bindE (CHECK_HSA (Hsa_agent_get_info (agent_handle a) HSA_AGENT_INFO_VERSION_MAJOR) ''hsa_agent_get_info()'') (\<lambda>_.
     bindE (CHECK_HSA (Hsa_agent_get_info (agent_handle a) HSA_AGENT_INFO_VERSION_MINOR) ''hsa_agent_get_info()'') (\<lambda>_.
     bindE (CHECK_HSA (Hsa_agent_get_info (agent_handle a) HSA_AGENT_INFO_QUEUE_MAX_SIZE) ''hsa_agent_get_info()'') (\<lambda>_.
     returnE isa_name)))))))))))"

definition create_device :: "agent_desc \<Rightarrow> string \<Rightarrow> hsa_state \<Rightarrow> nat result" where
  "create_device a isa_name =
     (let queue_size = agent_queue_max_size a in
     bindE (if queue_size > 0
            then bindE (CHECK_HSA (Hsa_queue_create (agent_handle a) queue_size) ''hsa_queue_create()'') (\<lambda>q.
                 bindE (CHECK_HSA (Hsa_amd_profiling_set_profiler_enabled q)
                          ''hsa_amd_profiling_set_profiler_enabled()'') (\<lambda>_.
                 returnE (Some \<lparr> queue_handle = q, q_size = queue_size, base_address = (\<lambda>_. None),
                                 doorbell_signal = q, write_index = 0 \<rparr>)))
            else returnE None) (\<lambda>queue.
     bindE (hsa_signal_create 0) (\<lambda>signal.
     (\<lambda>s. returnE (length (devices s))
                  (s\<lparr> devices := devices s @
                       [\<lparr> agent = agent_handle a, profile = agent_profile a,
                          float_mode = agent_float_mode a, isa = isa_name,
                          queue = queue, signal = signal,
                          kernarg_region = 0, finegrained_region = 0, coarsegrained_region = 0,
                          programs = Map.empty, kernels = Map.empty, locked = False \<rparr>] \<rparr>)))))"

definition discover_regions :: "agent_desc \<Rightarrow> nat \<Rightarrow> hsa_state \<Rightarrow> hsa_status_t result" where
  "discover_regions a dev =
     bindE (call_unchecked (Hsa_agent_iterate_regions (agent_handle a))) (\<lambda>(driver_status, _).
     bindE (if driver_status = HSA_STATUS_SUCCESS then iterate_regions (agent_regions a) dev
            else returnE driver_status) (\<lambda>status.
     bindE (check_hsa_error status ''hsa_agent_iterate_regions()'') (\<lambda>_.
     returnE HSA_STATUS_SUCCESS)))"

text \<open>The calls of the first part, in order.\<close>

definition query_calls :: "agent_desc \<Rightarrow> call list" where
  "query_calls a =
     [Hsa_agent_get_info (agent_handle a) HSA_AGENT_INFO_NAME,
      Hsa_agent_get_info (agent_handle a) HSA_AGENT_INFO_VENDOR_NAME,
      Hsa_agent_get_info (agent_handle a) HSA_AGENT_INFO_PROFILE,
      Hsa_agent_get_info (agent_handle a) HSA_AGENT_INFO_DEFAULT_FLOAT_ROUNDING_MODE,
      Hsa_agent_get_info (agent_handle a) HSA_AGENT_INFO_ISA,
      Hsa_isa_get_info_alt (agent_isa a) HSA_ISA_INFO_NAME_LENGTH,
      Hsa_isa_get_info_alt (agent_isa a) HSA_ISA_INFO_NAME,
      Hsa_agent_get_info (agent_handle a) HSA_AGENT_INFO_DEVICE,
      Hsa_agent_get_info (agent_handle a) HSA_AGENT_INFO_VERSION_MAJOR,
      Hsa_agent_get_info (agent_handle a) HSA_AGENT_INFO_VERSION_MINOR,
      Hsa_agent_get_info (agent_handle a) HSA_AGENT_INFO_QUEUE_MAX_SIZE]"

definition is_region_call :: "call \<Rightarrow> bool" where
  "is_region_call c = (case c of Hsa_region_get_info _ _ \<Rightarrow> True | _ \<Rightarrow> False)"

text \<open>The agent, the queue and the signal of every device.\<close>

definition device_summary :: "hsa_state \<Rightarrow> (handle \<times> hsa_queue_t option \<times> handle) list" where
  "device_summary s = map (\<lambda>d. (agent d, queue d, signal d)) (devices s)"

text \<open>
  A device's handles come from discovery: its signal is the result of a call
  \<^verbatim>\<open>hsa_signal_create(0, ...)\<close> and its queue, when it has one, the result of a call
  \<^verbatim>\<open>hsa_queue_create\<close> for its agent with the queue's size; and no two devices share a
  signal.
\<close>

definition device_ok :: "call list \<Rightarrow> handle \<times> hsa_queue_t option \<times> handle \<Rightarrow> bool" where
  "device_ok tr x =
     (case x of (ag, qu, sg) \<Rightarrow>
        0 < sg \<and> sg \<le> length tr \<and> tr ! (sg - 1) = Hsa_signal_create 0 \<and>
        (case qu of
           None \<Rightarrow> True
         | Some q \<Rightarrow> 0 < queue_handle q \<and> queue_handle q \<le> length tr
                     \<and> tr ! (queue_handle q - 1) = Hsa_queue_create ag (q_size q)))"

definition created_by_discovery :: "hsa_state \<Rightarrow> bool" where
  "created_by_discovery s \<longleftrightarrow>
     distinct (map (\<lambda>x. snd (snd x)) (device_summary s))
     \<and> list_all (device_ok (trace s)) (device_summary s)"

text \<open>
  The agent and the queue size of a device, what they are expected to be for an agent
  (a queue of the maximum size when that is not 0, no queue otherwise), and the queue
  creations expected for a list of agents.
\<close>

definition queue_size_of :: "handle \<times> hsa_queue_t option \<times> handle \<Rightarrow> handle \<times> uint32_t option" where
  "queue_size_of x = (fst x, map_option q_size (fst (snd x)))"

definition expected_queue :: "agent_desc \<Rightarrow> handle \<times> uint32_t option" where
  "expected_queue a =
     (agent_handle a, if 0 < agent_queue_max_size a then Some (agent_queue_max_size a) else None)"

definition queue_create_calls :: "agent_desc list \<Rightarrow> call list" where
  "queue_create_calls agents =
     map (\<lambda>a. Hsa_queue_create (agent_handle a) (agent_queue_max_size a))
       (filter (\<lambda>a. 0 < agent_queue_max_size a) agents)"

text \<open>The handle and size of the queue and the signal of every device.\<close>

definition device_handles :: "hsa_state \<Rightarrow> (handle option \<times> uint32_t option \<times> handle) list" where
  "device_handles s =
     map (\<lambda>d. (map_option queue_handle (queue d), map_option q_size (queue d), signal d)) (devices s)"

section \<open>Threads that call \<^verbatim>\<open>load_kernel\<close>\<close>

text \<open>
  A thread inside \<^verbatim>\<open>load_kernel\<close> is at one of the sections the lock cuts the function
  into, and carries its local variables: the executable, and the kernel once resolved.
  A step runs the section the thread is at.  A section that starts by taking the lock
  does not run while the lock is held: the thread stays where it is.  An error ends the
  thread, as it ends the process.
\<close>

datatype pc =
    At_program_lookup
  | At_build
  | At_program_publish handle
  | At_kernel_lookup handle
  | At_kernel_resolve handle
  | At_kernel_publish handle kernel_tuple
  | At_unlock handle kernel_tuple
  | Returned handle kernel_tuple
  | Aborted error

record thread =
  th_dev :: nat
  th_filename :: string
  th_kernelname :: string
  th_pc :: pc

definition continue_at :: "('a \<Rightarrow> pc) \<Rightarrow> pc \<Rightarrow> 'a result \<Rightarrow> pc \<times> hsa_state" where
  "continue_at next here r =
     (case r of
        (Inl Blocked, s') \<Rightarrow> (here, s')
      | (Inl e, s') \<Rightarrow> (Aborted e, s')
      | (Inr x, s') \<Rightarrow> (next x, s'))"

definition step_pc :: "nat \<Rightarrow> string \<Rightarrow> string \<Rightarrow> pc \<Rightarrow> hsa_state \<Rightarrow> pc \<times> hsa_state" where
  "step_pc dev filename kernelname here s =
     (case here of
        At_program_lookup \<Rightarrow>
          continue_at (\<lambda>prog_it. case prog_it of None \<Rightarrow> At_build
                                   | Some executable \<Rightarrow> At_kernel_lookup executable)
            here (program_lookup dev filename s)
      | At_build \<Rightarrow>
          continue_at At_program_publish here (build_executable dev filename s)
      | At_program_publish executable \<Rightarrow>
          continue_at (\<lambda>_. At_kernel_lookup executable) here
            (program_publish dev filename executable s)
      | At_kernel_lookup executable \<Rightarrow>
          continue_at (\<lambda>kernel_it. case kernel_it of None \<Rightarrow> At_kernel_resolve executable
                                     | Some t \<Rightarrow> At_unlock executable t)
            here (kernel_lookup dev executable kernelname s)
      | At_kernel_resolve executable \<Rightarrow>
          continue_at (At_kernel_publish executable) here
            (kernel_resolve dev executable kernelname s)
      | At_kernel_publish executable t \<Rightarrow>
          continue_at (\<lambda>_. At_unlock executable t) here
            (kernel_publish dev executable kernelname t s)
      | At_unlock executable t \<Rightarrow>
          continue_at (\<lambda>_. Returned executable t) here (unlock dev s)
      | Returned executable t \<Rightarrow> (here, s)
      | Aborted e \<Rightarrow> (here, s))"

definition step_thread :: "thread \<Rightarrow> hsa_state \<Rightarrow> thread \<times> hsa_state" where
  "step_thread th s =
     (case step_pc (th_dev th) (th_filename th) (th_kernelname th) (th_pc th) s of
        (pc', s') \<Rightarrow> (th\<lparr> th_pc := pc' \<rparr>, s'))"

text \<open>
  An interleaving of threads over the shared state: the schedule names, step by step,
  the thread that runs next.
\<close>

fun run :: "nat list \<Rightarrow> thread list \<times> hsa_state \<Rightarrow> thread list \<times> hsa_state" where
  "run [] c = c"
| "run (i # schedule) (ths, s) =
     (if i < length ths
      then (case step_thread (ths ! i) s of (th', s') \<Rightarrow> run schedule (ths[i := th'], s'))
      else run schedule (ths, s))"

definition load_kernel_call :: "nat \<Rightarrow> string \<Rightarrow> string \<Rightarrow> thread" where
  "load_kernel_call dev filename kernelname =
     \<lparr> th_dev = dev, th_filename = filename, th_kernelname = kernelname, th_pc = At_program_lookup \<rparr>"

text \<open>The steps of one thread that runs alone.\<close>

fun steps :: "nat \<Rightarrow> nat \<Rightarrow> string \<Rightarrow> string \<Rightarrow> pc \<times> hsa_state \<Rightarrow> pc \<times> hsa_state" where
  "steps 0 dev filename kernelname c = c"
| "steps (Suc n) dev filename kernelname c =
     steps n dev filename kernelname (step_pc dev filename kernelname (fst c) (snd c))"

section \<open>Example inputs\<close>

definition example_args :: "kernel_arg list" where
  "example_args = map (\<lambda>n. \<lparr> arg_data = (\<lambda>k. of_nat k), arg_size = n \<rparr>) [4, 8, 4, 16]"

definition world0 :: hsa_state where
  "world0 = \<lparr> trace = [], status_of_call = (\<lambda>_. HSA_STATUS_SUCCESS), signal_value = (\<lambda>_. 0),
      disk = Map.empty, memory = (\<lambda>_ _. 0), symbol_info = (\<lambda>_ _. (4096, 40, 0, 0)),
      llvm_codegen = (\<lambda>_ _ _. ''obj''), lld_output = (\<lambda>_. ''gcn''),
      devices = [], files = Map.empty, frequency = 0,
      profiling_enabled = False, RUNTIME_ENABLE_JIT = True \<rparr>"

definition cu0 :: cu_state where
  "cu0 = \<lparr> cuFunction = 1, cuArgs = [0], cuArgIdx = 0, cuArgIdxMax = 1,
     cuDimProblem = \<lparr> dim_x = 1, dim_y = 1, dim_z = 1 \<rparr>,
     cuDimBlock = \<lparr> dim_x = 1, dim_y = 1, dim_z = 1 \<rparr>,
     cu_trace = [], cu_success = (\<lambda>_. True) \<rparr>"

definition device0 :: DeviceData where
  "device0 = \<lparr> agent = 1, profile = HSA_PROFILE_FULL,
      float_mode = HSA_DEFAULT_FLOAT_ROUNDING_MODE_NEAR, isa = ''gfx803'',
      queue = Some \<lparr> queue_handle = 10, q_size = 4, base_address = (\<lambda>_. None),
                     doorbell_signal = 10, write_index = 5 \<rparr>,
      signal = 11, kernarg_region = 3, finegrained_region = 4, coarsegrained_region = 5,
      programs = [''k.gcn'' \<mapsto> 20],
      kernels = [20 \<mapsto> [''main'' \<mapsto> (4096, 40, 0, 0)]],
      locked = False \<rparr>"

definition world1 :: hsa_state where
  "world1 = world0\<lparr> devices := [device0] \<rparr>"

definition world2 :: hsa_state where
  "world2 = world0\<lparr> devices := [device0\<lparr> programs := Map.empty, kernels := Map.empty \<rparr>],
                     files := [''k.gcn'' \<mapsto> ''first''] \<rparr>"

definition gpu_agent :: agent_desc where
  "gpu_agent = \<lparr> agent_handle = 100, agent_name = ''gfx803'', agent_vendor_name = ''AMD'',
      agent_profile = HSA_PROFILE_BASE, agent_float_mode = HSA_DEFAULT_FLOAT_ROUNDING_MODE_NEAR,
      agent_isa = 200, agent_isa_name = ''amdgcn-amd-amdhsa--gfx803'',
      agent_device_type = HSA_DEVICE_TYPE_GPU, agent_version_major = 1, agent_version_minor = 1,
      agent_queue_max_size = 128,
      agent_regions = [\<lparr> region_handle = 300, region_segment = HSA_REGION_SEGMENT_GLOBAL,
                         region_global_flags = 1, region_runtime_alloc_allowed = True \<rparr>] \<rparr>"

definition cpu_agent :: agent_desc where
  "cpu_agent = gpu_agent\<lparr> agent_handle := 101, agent_device_type := HSA_DEVICE_TYPE_CPU,
      agent_queue_max_size := 0, agent_regions := [] \<rparr>"

text \<open>
  Two calls for the same device and file that race: both miss the cache, both build,
  the first publishes and goes on, then the second publishes.  In \<open>world3\<close> the loader
  reports a different kernel object for every executable.
\<close>

definition world3 :: hsa_state where
  "world3 = world2\<lparr> symbol_info := (\<lambda>executable _. (of_nat executable, 40, 0, 0)) \<rparr>"

definition race :: "nat list" where
  "race = [0, 1, 0, 1, 0, 0, 0, 0, 0, 1, 1, 1, 1, 1]"

definition two_calls :: "thread list" where
  "two_calls = [load_kernel_call 0 ''k.gcn'' ''main'', load_kernel_call 0 ''k.gcn'' ''main'']"

section \<open>Properties of argument packing\<close>

lemma round_up_bounds:
  assumes "0 < a"
  shows "base \<le> round_up base a \<and> round_up base a < base + a"
proof -
  let ?n = "base + a - 1"
  have eq: "?n div a * a + ?n mod a = ?n" by simp
  have lt: "?n mod a < a" using assms by simp
  show ?thesis unfolding round_up_def using eq lt assms by linarith
qed

lemma round_up_dvd: "a dvd round_up base a"
  by (simp add: round_up_def)

lemma round_up_least:
  assumes "0 < a" "a dvd m" "base \<le> m"
  shows "round_up base a \<le> m"
proof -
  obtain k where m: "m = k * a" using assms(2) by (metis dvd_def mult.commute)
  have "base + a - 1 < (k + 1) * a" using assms m by simp
  then have "(base + a - 1) div a < k + 1"
    using assms(1) by (simp add: div_less_iff_less_mult)
  then have "(base + a - 1) div a \<le> k" by simp
  then show ?thesis unfolding round_up_def m by (rule mult_le_mono1)
qed

lemma spec_end_ge: "\<forall>s\<in>set ss. 0 < s \<Longrightarrow> base \<le> spec_end base ss"
proof (induction ss arbitrary: base)
  case Nil
  then show ?case by simp
next
  case (Cons s ss)
  have "base \<le> round_up base (min s 8)" using Cons.prems round_up_bounds[of "min s 8" base] by simp
  moreover have "round_up base (min s 8) + s \<le> spec_end (round_up base (min s 8) + s) ss"
    using Cons by simp
  ultimately show ?case by simp
qed

lemma align_address_nat:
  assumes "a \<noteq> 0" and "unat base + min (unat a) 8 \<le> 2 ^ 64"
  shows "\<exists>r. align_address base a = Inr r \<and> unat r = round_up (unat base) (min (unat a) 8)"
proof -
  define al :: size_t where "al = (if a > 8 then 8 else a)"
  have al0: "al \<noteq> 0" using assms(1) by (simp add: al_def)
  have ual: "unat al = min (unat a) 8"
    by (auto simp: al_def word_less_nat_alt min_def)
  have pos: "0 < unat al" using al0 by (simp add: unat_gt_0)
  have bnd: "unat base + unat al \<le> 2 ^ 64" using assms(2) ual by simp
  have s1: "unat (base + al - 1) = unat base + unat al - 1"
  proof -
    have a: "unat (al - 1) = unat al - 1" using al0 by (simp add: unat_minus_one)
    have "unat (base + (al - 1)) = unat base + unat (al - 1)"
      using bnd pos a by (simp add: unat_add_lem[THEN iffD1])
    then show ?thesis using a pos by (simp add: add_diff_eq)
  qed
  have s2: "unat ((base + al - 1) div al) = (unat base + unat al - 1) div unat al"
    by (simp add: unat_div s1)
  have le: "(unat base + unat al - 1) div unat al * unat al < 2 ^ 64"
    using round_up_bounds[OF pos, of "unat base"] bnd by (simp add: round_up_def)
  have s3: "unat ((base + al - 1) div al * al) = (unat base + unat al - 1) div unat al * unat al"
    using le s2 by (simp add: unat_word_ariths)
  show ?thesis
    using al0 s3 ual by (simp add: align_address_def al_def[symmetric] Let_def round_up_def)
qed


lemma unat_ucast_size: "unat (ucast (s :: uint32_t) :: size_t) = unat s"
proof -
  have "unat s < 2 ^ 64"
    using unsigned_less[of s, where 'a=nat] by simp
  then show ?thesis
    by (simp add: unsigned_ucast_eq take_bit_nat_eq_self)
qed

lemma pack_step_nat:
  assumes nz: "arg_size a \<noteq> 0"
    and bnd: "round_up (unat base) (min (unat (arg_size a)) 8) + unat (arg_size a) < 2 ^ 64"
  shows "\<exists>off. align_address base (ucast (arg_size a)) = Inr off
           \<and> unat off = round_up (unat base) (min (unat (arg_size a)) 8)
           \<and> unat (off + ucast (arg_size a)) = unat off + unat (arg_size a)"
proof -
  let ?s = "unat (arg_size a)"
  have pos: "0 < ?s" using nz by (simp add: unat_gt_0)
  have nz': "(ucast (arg_size a) :: size_t) \<noteq> 0"
    using pos unat_ucast_size[of "arg_size a"] by (metis less_numeral_extra(3) unat_0)
  have "unat base \<le> round_up (unat base) (min ?s 8)"
    using round_up_bounds[of "min ?s 8" "unat base"] pos by simp
  then have "unat base + min (unat (ucast (arg_size a) :: size_t)) 8 \<le> 2 ^ 64"
    using bnd by (simp add: unat_ucast_size)
  from align_address_nat[OF nz' this] obtain off where
    off: "align_address base (ucast (arg_size a)) = Inr off"
         "unat off = round_up (unat base) (min ?s 8)"
    by (auto simp: unat_ucast_size)
  have "unat (off + ucast (arg_size a)) = unat off + unat (ucast (arg_size a) :: size_t)"
    using bnd off(2) by (simp add: unat_add_lem[THEN iffD1] unat_ucast_size)
  then show ?thesis using off by (simp add: unat_ucast_size)
qed

lemma pack_args_offsets:
  assumes "\<forall>a\<in>set args. arg_size a \<noteq> 0"
    and "spec_end (unat (offset st)) (sizes_of args) < 2 ^ 64"
  shows "\<exists>st'. pack_args args st = Inr st'
           \<and> unat (offset st') = spec_end (unat (offset st)) (sizes_of args)
           \<and> map unat (copied_at st') =
               map unat (copied_at st) @ spec_offsets (unat (offset st)) (sizes_of args)"
  using assms
proof (induction args arbitrary: st)
  case Nil
  then show ?case by simp
next
  case (Cons a as)
  let ?s = "unat (arg_size a)"
  let ?r = "round_up (unat (offset st)) (min ?s 8)"
  have pos: "\<forall>s\<in>set (sizes_of as). 0 < s" using Cons.prems(1) by (auto simp: unat_gt_0)
  have "?r + ?s \<le> spec_end (?r + ?s) (sizes_of as)" by (rule spec_end_ge[OF pos])
  then have bnd: "?r + ?s < 2 ^ 64" using Cons.prems(2) by simp
  from pack_step_nat[OF _ bnd] Cons.prems(1) obtain off where
    off: "align_address (offset st) (ucast (arg_size a)) = Inr off"
         "unat off = ?r" "unat (off + ucast (arg_size a)) = unat off + ?s"
    by auto
  let ?st1 = "\<lparr> offset = off + ucast (arg_size a),
              kernarg = memcpy (kernarg st) off (arg_data a) (arg_size a),
              copied_at = copied_at st @ [off] \<rparr>"
  have "\<exists>st'. pack_args as ?st1 = Inr st'
           \<and> unat (offset st') = spec_end (unat (offset ?st1)) (sizes_of as)
           \<and> map unat (copied_at st') =
               map unat (copied_at ?st1) @ spec_offsets (unat (offset ?st1)) (sizes_of as)"
    using Cons.prems off by (intro Cons.IH) simp_all
  then show ?case using off by (simp add: Let_def)
qed


lemma pack_args_copied_at:
  "pack_args args st = Inr st' \<Longrightarrow>
     \<exists>offs. copied_at st' = copied_at st @ offs \<and> length offs = length args"
proof (induction args arbitrary: st)
  case Nil
  then show ?case by simp
next
  case (Cons a as)
  then show ?case by (fastforce split: sum.splits)
qed

lemma memcpy_read:
  "k < unat n \<Longrightarrow> memcpy buf dst src n (dst + of_nat k) = src k"
proof -
  assume k: "k < unat n"
  have "unat n < 2 ^ 64" using unsigned_less[of n, where 'a=nat] by simp
  then have "unat (of_nat k :: size_t) = k" using k by (simp add: unat_of_nat)
  then show ?thesis using k by (simp add: memcpy_def)
qed

lemma memcpy_below:
  assumes "unat x < unat dst" and "unat dst + unat n < 2 ^ 64"
  shows "memcpy buf dst src n x = buf x"
proof -
  have "x < dst" using assms(1) by (simp add: word_less_nat_alt)
  have "unat (x - dst) = 2 ^ 64 + unat x - unat dst"
    using assms(1) by (simp add: unat_sub_if')
  then have "\<not> unat (x - dst) < unat n" using assms by simp
  then show ?thesis by (simp add: memcpy_def)
qed

lemma pack_args_keeps_below:
  assumes "\<forall>a\<in>set args. arg_size a \<noteq> 0"
    and "spec_end (unat (offset st)) (sizes_of args) < 2 ^ 64"
    and "pack_args args st = Inr st'"
    and "unat x < unat (offset st)"
  shows "kernarg st' x = kernarg st x"
  using assms
proof (induction args arbitrary: st)
  case Nil
  then show ?case by simp
next
  case (Cons a as)
  let ?s = "unat (arg_size a)"
  let ?r = "round_up (unat (offset st)) (min ?s 8)"
  have pos: "\<forall>s\<in>set (sizes_of as). 0 < s" using Cons.prems(1) by (auto simp: unat_gt_0)
  have "?r + ?s \<le> spec_end (?r + ?s) (sizes_of as)" by (rule spec_end_ge[OF pos])
  then have bnd: "?r + ?s < 2 ^ 64" using Cons.prems(2) by simp
  from pack_step_nat[OF _ bnd] Cons.prems(1) obtain off where
    off: "align_address (offset st) (ucast (arg_size a)) = Inr off"
         "unat off = ?r" "unat (off + ucast (arg_size a)) = unat off + ?s"
    by auto
  have ge: "unat (offset st) \<le> unat off"
    using round_up_bounds[of "min ?s 8" "unat (offset st)"] Cons.prems(1) off(2)
    by (simp add: unat_gt_0)
  let ?st1 = "\<lparr> offset = off + ucast (arg_size a),
              kernarg = memcpy (kernarg st) off (arg_data a) (arg_size a),
              copied_at = copied_at st @ [off] \<rparr>"
  have run: "pack_args as ?st1 = Inr st'" using Cons.prems(3) off(1) by simp
  have "kernarg st' x = kernarg ?st1 x"
    using Cons.prems off ge run by (intro Cons.IH) simp_all
  also have "\<dots> = kernarg st x"
    using memcpy_below[of x off "arg_size a"] Cons.prems(4) ge bnd off(2) by simp
  finally show ?case .
qed

lemma pack_args_data:
  assumes "\<forall>a\<in>set args. arg_size a \<noteq> 0"
    and "spec_end (unat (offset st)) (sizes_of args) < 2 ^ 64"
    and "pack_args args st = Inr st'"
    and "i < length args" and "k < unat (arg_size (args ! i))"
  shows "kernarg st' (copied_at st' ! (length (copied_at st) + i) + of_nat k) = arg_data (args ! i) k"
  using assms
proof (induction args arbitrary: st i)
  case Nil
  then show ?case by simp
next
  case (Cons a as)
  let ?s = "unat (arg_size a)"
  let ?r = "round_up (unat (offset st)) (min ?s 8)"
  have pos: "\<forall>s\<in>set (sizes_of as). 0 < s" using Cons.prems(1) by (auto simp: unat_gt_0)
  have "?r + ?s \<le> spec_end (?r + ?s) (sizes_of as)" by (rule spec_end_ge[OF pos])
  then have bnd: "?r + ?s < 2 ^ 64" using Cons.prems(2) by simp
  from pack_step_nat[OF _ bnd] Cons.prems(1) obtain off where
    off: "align_address (offset st) (ucast (arg_size a)) = Inr off"
         "unat off = ?r" "unat (off + ucast (arg_size a)) = unat off + ?s"
    by auto
  let ?st1 = "\<lparr> offset = off + ucast (arg_size a),
              kernarg = memcpy (kernarg st) off (arg_data a) (arg_size a),
              copied_at = copied_at st @ [off] \<rparr>"
  have run: "pack_args as ?st1 = Inr st'" using Cons.prems(3) off(1) by simp
  from pack_args_copied_at[OF run] obtain offs where
    offs: "copied_at st' = (copied_at st @ [off]) @ offs" by auto
  show ?case
  proof (cases i)
    case 0
    then have k: "k < ?s" using Cons.prems(5) by simp
    have at: "copied_at st' ! (length (copied_at st) + i) = off"
      using offs 0 by (simp add: nth_append)
    have "unat (of_nat k :: size_t) = k" using k bnd by (simp add: unat_of_nat)
    then have "unat (off + of_nat k) = unat off + k"
      using k bnd off(2) by (simp add: unat_add_lem[THEN iffD1])
    then have "unat (off + of_nat k) < unat (offset ?st1)" using off(3) k by simp
    then have "kernarg st' (off + of_nat k) = kernarg ?st1 (off + of_nat k)"
      using Cons.prems(1,2) off run by (intro pack_args_keeps_below[of as]) simp_all
    also have "\<dots> = arg_data a k" using memcpy_read[OF k] by simp
    finally show ?thesis using at 0 by simp
  next
    case (Suc j)
    have "kernarg st' (copied_at st' ! (length (copied_at ?st1) + j) + of_nat k) = arg_data (as ! j) k"
      using Cons.prems off run Suc by (intro Cons.IH) simp_all
    then show ?thesis using Suc by simp
  qed
qed

text \<open>
  Claim C2.  Packing is deterministic and keeps the call order: one \<^verbatim>\<open>memcpy\<close> per
  argument, in order, each at the previous end rounded up to the alignment given by the
  argument's own size capped at 8; the bytes of every argument are in the buffer at its
  offset when the loop ends.  For the sizes 4, 8, 4, 16 the offsets are 0, 8, 16, 24 and
  the final offset is 40.  The sizes are non-zero and the packed size fits \<^verbatim>\<open>size_t\<close>.
\<close>

theorem pack_args_order_and_alignment:
  assumes "\<forall>a\<in>set args. arg_size a \<noteq> 0"
    and "spec_end (unat (offset st)) (sizes_of args) < 2 ^ 64"
  shows "(\<exists>st'. pack_args args st = Inr st'
            \<and> unat (offset st') = spec_end (unat (offset st)) (sizes_of args)
            \<and> map unat (copied_at st') =
                map unat (copied_at st) @ spec_offsets (unat (offset st)) (sizes_of args)
            \<and> (\<forall>i<length args. \<forall>k<unat (arg_size (args ! i)).
                  kernarg st' (copied_at st' ! (length (copied_at st) + i) + of_nat k)
                    = arg_data (args ! i) k))
         \<and> (\<forall>xs buf. map arg_size xs = [4, 8, 4, 16] \<longrightarrow>
               (\<exists>st'. pack_args xs (pack_init buf) = Inr st'
                  \<and> copied_at st' = [0, 8, 16, 24] \<and> offset st' = 40))"
proof (intro conjI allI impI)
  from pack_args_offsets[OF assms] obtain st' where
    st': "pack_args args st = Inr st'"
         "unat (offset st') = spec_end (unat (offset st)) (sizes_of args)"
         "map unat (copied_at st') =
            map unat (copied_at st) @ spec_offsets (unat (offset st)) (sizes_of args)"
    by blast
  have "\<forall>i<length args. \<forall>k<unat (arg_size (args ! i)).
          kernarg st' (copied_at st' ! (length (copied_at st) + i) + of_nat k)
            = arg_data (args ! i) k"
    using pack_args_data[OF assms st'(1)] by blast
  with st' show "\<exists>st'. pack_args args st = Inr st'
            \<and> unat (offset st') = spec_end (unat (offset st)) (sizes_of args)
            \<and> map unat (copied_at st') =
                map unat (copied_at st) @ spec_offsets (unat (offset st)) (sizes_of args)
            \<and> (\<forall>i<length args. \<forall>k<unat (arg_size (args ! i)).
                  kernarg st' (copied_at st' ! (length (copied_at st) + i) + of_nat k)
                    = arg_data (args ! i) k)"
    by blast
next
  fix xs :: "kernel_arg list" and buf
  assume "map arg_size xs = [4, 8, 4, 16]"
  then obtain a b c d where xs: "xs = [a, b, c, d]"
    and sz: "arg_size a = 4" "arg_size b = 8" "arg_size c = 4" "arg_size d = 16"
    by (auto simp: map_eq_Cons_conv)
  show "\<exists>st'. pack_args xs (pack_init buf) = Inr st'
                  \<and> copied_at st' = [0, 8, 16, 24] \<and> offset st' = 40"
    by (simp add: xs sz pack_init_def align_address_def)
qed

theorem pack_args_order_and_alignment_witness:
  "0 \<notin> set (map arg_size example_args)
   \<and> spec_end (unat (offset (pack_init (\<lambda>_. 0)))) (sizes_of example_args) < 2 ^ 64
   \<and> (\<exists>st'. pack_args example_args (pack_init (\<lambda>_. 0)) = Inr st'
          \<and> unat (offset st') = 40
          \<and> map unat (copied_at st') = [0, 8, 16, 24]
          \<and> kernarg st' 25 = 1)"
proof -
  have h1: "\<forall>a\<in>set example_args. arg_size a \<noteq> 0"
    by (simp add: example_args_def)
  have e: "spec_end (unat (offset (pack_init (\<lambda>_. 0)))) (sizes_of example_args) = 40"
    by (simp add: example_args_def pack_init_def round_up_def)
  have o: "spec_offsets (unat (offset (pack_init (\<lambda>_. 0)))) (sizes_of example_args) = [0, 8, 16, 24]"
    by (simp add: example_args_def pack_init_def round_up_def Let_def)
  have h2: "spec_end (unat (offset (pack_init (\<lambda>_. 0)))) (sizes_of example_args) < 2 ^ 64"
    by (simp add: e)
  from pack_args_order_and_alignment[OF h1 h2] obtain st' where
    st': "pack_args example_args (pack_init (\<lambda>_. 0)) = Inr st'"
         "unat (offset st') = spec_end (unat (offset (pack_init (\<lambda>_. 0)))) (sizes_of example_args)"
         "map unat (copied_at st') = map unat (copied_at (pack_init (\<lambda>_. 0)))
             @ spec_offsets (unat (offset (pack_init (\<lambda>_. 0)))) (sizes_of example_args)"
         "\<forall>i<length example_args. \<forall>k<unat (arg_size (example_args ! i)).
             kernarg st' (copied_at st' ! (length (copied_at (pack_init (\<lambda>_. 0))) + i) + of_nat k)
               = arg_data (example_args ! i) k"
    by blast
  have c: "map unat (copied_at st') = [0, 8, 16, 24]"
    using st'(3) o by (simp add: pack_init_def)
  then obtain w0 w1 w2 w3 where ws: "copied_at st' = [w0, w1, w2, w3]" "unat w3 = 24"
    by (auto simp: map_eq_Cons_conv)
  have "w3 = word_of_nat (unat w3)" by simp
  then have w3: "w3 = 24" by (simp add: ws(2))
  have l: "(3::nat) < length example_args" and k: "(1::nat) < unat (arg_size (example_args ! 3))"
    by (simp_all add: example_args_def)
  have "kernarg st' (copied_at st' ! (length (copied_at (pack_init (\<lambda>_. 0))) + 3) + of_nat 1)
          = arg_data (example_args ! 3) 1"
    using st'(4)[rule_format, OF l k] .
  then have "kernarg st' 25 = 1"
    by (simp add: ws w3 pack_init_def example_args_def)
  moreover have "0 \<notin> set (map arg_size example_args)"
    by (simp add: example_args_def)
  ultimately show ?thesis using h2 st'(1,2) e c by auto
qed

text \<open>
  Claim C10.  The offset computation divides by the argument's own size capped at 8, so
  the packing loop returns exactly when every argument size is at least 1; a size of 0
  is a division by zero.
\<close>

theorem pack_args_total_iff_sizes_nonzero:
  "((\<exists>st'. pack_args args st = Inr st') \<longleftrightarrow> (\<forall>a\<in>set args. arg_size a \<noteq> 0))
   \<and> (\<forall>e. pack_args args st = Inl e \<longrightarrow> e = DivisionByZero)
   \<and> align_address base 0 = Inl DivisionByZero"
proof (intro conjI)
  show "(\<exists>st'. pack_args args st = Inr st') \<longleftrightarrow> (\<forall>a\<in>set args. arg_size a \<noteq> 0)"
  proof (induction args arbitrary: st)
    case Nil
    then show ?case by simp
  next
    case (Cons a as)
    show ?case
    proof (cases "arg_size a = 0")
      case True
      then show ?thesis by (simp add: align_address_def)
    next
      case False
      then have "(ucast (arg_size a) :: size_t) \<noteq> 0"
        using unat_ucast_size[of "arg_size a"] by (metis unat_0 unat_gt_0 less_numeral_extra(3))
      then obtain off where "align_address (offset st) (ucast (arg_size a)) = Inr off"
        by (cases "8 < (ucast (arg_size a) :: size_t)") (auto simp: align_address_def Let_def)
      then show ?thesis using False Cons.IH by simp
    qed
  qed
  show "\<forall>e. pack_args args st = Inl e \<longrightarrow> e = DivisionByZero"
  proof (induction args arbitrary: st)
    case Nil
    then show ?case by simp
  next
    case (Cons a as)
    then show ?case
      by (auto simp: align_address_def Let_def split: sum.splits if_splits)
  qed
  show "align_address base 0 = Inl DivisionByZero"
    by (simp add: align_address_def)
qed

theorem pack_args_total_iff_sizes_nonzero_witness:
  "(\<exists>st'. pack_args example_args (pack_init (\<lambda>_. 0)) = Inr st')
   \<and> pack_args (\<lparr> arg_data = (\<lambda>_. 0), arg_size = 0 \<rparr> # example_args) (pack_init (\<lambda>_. 0))
        = Inl DivisionByZero"
proof -
  have a: "\<forall>a\<in>set example_args. arg_size a \<noteq> 0" by (simp add: example_args_def)
  have b: "pack_args (\<lparr> arg_data = (\<lambda>_. 0), arg_size = 0 \<rparr> # example_args) (pack_init (\<lambda>_. 0))
        = Inl DivisionByZero"
    by (simp add: align_address_def)
  show ?thesis
    using pack_args_total_iff_sizes_nonzero[of example_args "pack_init (\<lambda>_. 0)" 0] a b by simp
qed

section \<open>Properties of the error monad\<close>

lemma bindE_Inr:
  "bindE m f s = (Inr y, s'') \<longleftrightarrow> (\<exists>x s'. m s = (Inr x, s') \<and> f x s' = (Inr y, s''))"
  by (auto simp: bindE_def split: prod.splits sum.splits)

lemma CHECK_HSA_eq:
  "CHECK_HSA c name s =
     (if status_of_call s (length (trace s)) = HSA_STATUS_SUCCESS
      then (Inr (Suc (length (trace s))), s\<lparr> trace := trace s @ [c] \<rparr>)
      else (Inl (HSA_API_Error name (status_of_call s (length (trace s)))),
            s\<lparr> trace := trace s @ [c] \<rparr>))"
  by (simp add: CHECK_HSA_def do_call_def check_hsa_error_def)

section \<open>Allocation\<close>

text \<open>
  Claim C9.  A request of size zero returns the null pointer and leaves the state, and
  so the list of driver calls, as it was.  Any other size makes exactly one
  \<^verbatim>\<open>hsa_memory_allocate\<close> call for the region and the size; the result is the pointer
  of that call when the driver reports success and the fatal error of \<^verbatim>\<open>CHECK_HSA\<close>
  otherwise.
\<close>

theorem alloc_hsa_zero_and_nonzero:
  "alloc_hsa 0 region s = (Inr nullptr, s)
   \<and> (sz \<noteq> 0 \<longrightarrow>
        trace (snd (alloc_hsa sz region s)) = trace s @ [Hsa_memory_allocate region sz]
        \<and> fst (alloc_hsa sz region s) =
            (if status_of_call s (length (trace s)) = HSA_STATUS_SUCCESS
             then Inr (Suc (length (trace s)))
             else Inl (HSA_API_Error ''hsa_memory_allocate()'' (status_of_call s (length (trace s))))))"
  by (simp add: alloc_hsa_def returnE_def bindE_def CHECK_HSA_eq)

theorem alloc_hsa_zero_and_nonzero_witness:
  "alloc_hsa 0 7 world0 = (Inr nullptr, world0)
   \<and> trace (snd (alloc_hsa 16 7 world0)) = [Hsa_memory_allocate 7 16]
   \<and> fst (alloc_hsa 16 7 world0) = Inr 1
   \<and> fst (alloc_hsa 16 7 (world0\<lparr> status_of_call := (\<lambda>_. HSA_STATUS_ERROR 1) \<rparr>))
       = Inl (HSA_API_Error ''hsa_memory_allocate()'' (HSA_STATUS_ERROR 1))"
  using alloc_hsa_zero_and_nonzero[of 7 world0 16]
        alloc_hsa_zero_and_nonzero[of 7 "world0\<lparr> status_of_call := (\<lambda>_. HSA_STATUS_ERROR 1) \<rparr>" 16]
  by (simp add: world0_def)

section \<open>Grid geometry of the CUDA launch\<close>

lemma cu_launch_kernel_trace:
  assumes "compute_grid (cuDimProblem s) (cuDimBlock s) = Inr grid"
  shows "\<exists>rest. cu_trace (snd (cu_launch_kernel name s)) =
           cu_trace s @ [CuEventCreate, CuEventCreate, CuEventRecord,
             CuLaunchKernel (cuFunction s) grid (cuDimBlock s) (cuArgs s)] @ rest"
  unfolding cu_launch_kernel_def assms
  by (simp add: cu_call_def checkErrDrv_def Let_def)

text \<open>
  Claim C6.  The launch passes to \<^verbatim>\<open>cuLaunchKernel\<close> the grid whose components are the
  problem sizes divided by the block sizes, in unsigned 32-bit arithmetic; the quotient
  is the floor of the exact one, so what is left over of a problem size that the block
  size does not divide is not launched.  Problem size (256,256,1) with block size
  (16,16,1) gives the grid (16,16,1).  The block sizes are non-zero (a zero block size
  is a division by zero).
\<close>

theorem cu_launch_kernel_grid:
  assumes "(ucast bx :: uint32_t) \<noteq> 0" and "(ucast by :: uint32_t) \<noteq> 0"
    and "(ucast bz :: uint32_t) \<noteq> 0"
  shows "(\<exists>rest. cu_trace (snd (cu_launch_kernel name
                     (set_config_size bx by bz (set_problem_size px py pz s)))) =
           cu_trace s @ [CuEventCreate, CuEventCreate, CuEventRecord,
             CuLaunchKernel (cuFunction s)
               \<lparr> dim_x = ucast px div ucast bx, dim_y = ucast py div ucast by,
                 dim_z = ucast pz div ucast bz \<rparr>
               \<lparr> dim_x = ucast bx, dim_y = ucast by, dim_z = ucast bz \<rparr> (cuArgs s)] @ rest)
         \<and> unat (ucast px div ucast bx :: uint32_t)
             = unat (ucast px :: uint32_t) div unat (ucast bx :: uint32_t)
         \<and> unat (ucast py div ucast by :: uint32_t)
             = unat (ucast py :: uint32_t) div unat (ucast by :: uint32_t)
         \<and> unat (ucast pz div ucast bz :: uint32_t)
             = unat (ucast pz :: uint32_t) div unat (ucast bz :: uint32_t)
         \<and> (\<exists>rest. cu_trace (snd (cu_launch_kernel name
                     (set_config_size 16 16 1 (set_problem_size 256 256 1 s)))) =
           cu_trace s @ [CuEventCreate, CuEventCreate, CuEventRecord,
             CuLaunchKernel (cuFunction s) \<lparr> dim_x = 16, dim_y = 16, dim_z = 1 \<rparr>
               \<lparr> dim_x = 16, dim_y = 16, dim_z = 1 \<rparr> (cuArgs s)] @ rest)"
proof -
  let ?s' = "set_config_size bx by bz (set_problem_size px py pz s)"
  let ?g = "\<lparr> dim_x = ucast px div ucast bx, dim_y = ucast py div ucast by,
              dim_z = ucast pz div ucast bz \<rparr> :: dim3"
  have g: "compute_grid (cuDimProblem ?s') (cuDimBlock ?s') = Inr ?g"
    using assms by (simp add: compute_grid_def udiv_def set_config_size_def set_problem_size_def)
  have a: "\<exists>rest. cu_trace (snd (cu_launch_kernel name ?s')) =
           cu_trace s @ [CuEventCreate, CuEventCreate, CuEventRecord,
             CuLaunchKernel (cuFunction s) ?g
               \<lparr> dim_x = ucast bx, dim_y = ucast by, dim_z = ucast bz \<rparr> (cuArgs s)] @ rest"
    using cu_launch_kernel_trace[OF g, of name]
    by (simp add: set_config_size_def set_problem_size_def)
  let ?t' = "set_config_size 16 16 1 (set_problem_size 256 256 1 s)"
  have h: "compute_grid (cuDimProblem ?t') (cuDimBlock ?t')
             = Inr \<lparr> dim_x = 16, dim_y = 16, dim_z = 1 \<rparr>"
    by (simp add: compute_grid_def udiv_def set_config_size_def set_problem_size_def)
  have b: "\<exists>rest. cu_trace (snd (cu_launch_kernel name ?t')) =
           cu_trace s @ [CuEventCreate, CuEventCreate, CuEventRecord,
             CuLaunchKernel (cuFunction s) \<lparr> dim_x = 16, dim_y = 16, dim_z = 1 \<rparr>
               \<lparr> dim_x = 16, dim_y = 16, dim_z = 1 \<rparr> (cuArgs s)] @ rest"
    using cu_launch_kernel_trace[OF h, of name]
    by (simp add: set_config_size_def set_problem_size_def)
  show ?thesis using a b by (simp add: unat_div)
qed

theorem cu_launch_kernel_grid_witness:
  "(ucast (16 :: size_t) :: uint32_t) \<noteq> 0 \<and> (ucast (1 :: size_t) :: uint32_t) \<noteq> 0
   \<and> (\<exists>rest. cu_trace (snd (cu_launch_kernel ''k''
                     (set_config_size 16 16 1 (set_problem_size 100 256 1 cu0)))) =
           [CuEventCreate, CuEventCreate, CuEventRecord,
             CuLaunchKernel 1 \<lparr> dim_x = 6, dim_y = 16, dim_z = 1 \<rparr>
               \<lparr> dim_x = 16, dim_y = 16, dim_z = 1 \<rparr> [0]] @ rest)"
proof -
  have nz: "(ucast (16 :: size_t) :: uint32_t) \<noteq> 0" "(ucast (1 :: size_t) :: uint32_t) \<noteq> 0"
    by simp_all
  show ?thesis
    using cu_launch_kernel_grid[OF nz(1) nz(1) nz(2), of "''k''" 100 256 1 cu0] nz
    by (simp add: cu0_def)
qed

section \<open>Calls and their traces\<close>

lemma llvm_call_eq:
  "llvm_call c s = (Inr (status_of_call s (length (trace s)) = HSA_STATUS_SUCCESS),
                    s\<lparr> trace := trace s @ [c] \<rparr>)"
  by (simp add: llvm_call_def bindE_def call_unchecked_def do_call_def returnE_def)

lemma call_unchecked_eq:
  "call_unchecked c s = (Inr (status_of_call s (length (trace s)), Suc (length (trace s))),
                    s\<lparr> trace := trace s @ [c] \<rparr>)"
  by (simp add: call_unchecked_def do_call_def)

lemma emitsI:
  "(\<And>s. \<exists>evs. trace (snd (m s)) = trace s @ evs \<and> list_all P evs) \<Longrightarrow> emits P m"
  by (simp add: emits_def)

lemma emitsD:
  "emits P m \<Longrightarrow> \<exists>evs. trace (snd (m s)) = trace s @ evs \<and> list_all P evs"
  by (simp add: emits_def)

lemma emits_returnE [intro!]: "emits P (returnE x)"
  by (simp add: emits_def returnE_def)

lemma emits_failE [intro!]: "emits P (failE e)"
  by (simp add: emits_def failE_def)

lemma emits_bindE [intro!]:
  assumes "emits P m" and "\<And>x. emits P (f x)"
  shows "emits P (bindE m f)"
proof (rule emitsI)
  fix s
  obtain r s1 where ms: "m s = (r, s1)" by (cases "m s")
  from emitsD[OF assms(1), of s] ms obtain evs where
    e1: "trace s1 = trace s @ evs" "list_all P evs" by auto
  show "\<exists>evs. trace (snd (bindE m f s)) = trace s @ evs \<and> list_all P evs"
  proof (cases r)
    case (Inl e)
    then show ?thesis using ms e1 by (simp add: bindE_def)
  next
    case (Inr x)
    from emitsD[OF assms(2), of x s1] obtain evs2 where
      e2: "trace (snd (f x s1)) = trace s1 @ evs2" "list_all P evs2" by auto
    have "trace (snd (bindE m f s)) = trace s @ (evs @ evs2)"
      using Inr ms e1 e2 by (simp add: bindE_def)
    moreover have "list_all P (evs @ evs2)" using e1 e2 by simp
    ultimately show ?thesis by blast
  qed
qed

lemma emits_call_unchecked [intro!]: "P c \<Longrightarrow> emits P (call_unchecked c)"
  by (simp add: emits_def call_unchecked_eq)

lemma emits_llvm_call [intro!]: "P c \<Longrightarrow> emits P (llvm_call c)"
  by (simp add: emits_def llvm_call_eq)

lemma emits_CHECK_HSA [intro!]: "P c \<Longrightarrow> emits P (CHECK_HSA c name)"
  by (simp add: emits_def CHECK_HSA_eq)

lemma emits_if [intro!]: "(c \<Longrightarrow> emits P a) \<Longrightarrow> (\<not> c \<Longrightarrow> emits P b) \<Longrightarrow> emits P (if c then a else b)"
  by simp

lemma emits_state_if [intro!]:
  "emits P a \<Longrightarrow> emits P b \<Longrightarrow> emits P (\<lambda>s. if c s then a s else b s)"
  by (simp add: emits_def)

lemma emits_case_sum [intro!]:
  "(\<And>e. x = Inl e \<Longrightarrow> emits P (f e)) \<Longrightarrow> (\<And>v. x = Inr v \<Longrightarrow> emits P (g v))
     \<Longrightarrow> emits P (case x of Inl e \<Rightarrow> f e | Inr v \<Rightarrow> g v)"
  by (cases x) simp_all

lemma emits_case_option [intro!]:
  "(x = None \<Longrightarrow> emits P a) \<Longrightarrow> (\<And>v. x = Some v \<Longrightarrow> emits P (g v))
     \<Longrightarrow> emits P (case x of None \<Rightarrow> a | Some v \<Rightarrow> g v)"
  by (cases x) simp_all

lemma emits_case_prod [intro!]:
  "(\<And>a b. emits P (f a b)) \<Longrightarrow> emits P (case x of (a, b) \<Rightarrow> f a b)"
  by (cases x) simp

lemma emits_same_trace:
  "(\<And>s. trace (snd (m s)) = trace s) \<Longrightarrow> emits P m"
  by (simp add: emits_def)

lemma emits_load_file [intro!]: "emits P (load_file filename)"
  by (rule emits_same_trace) (simp add: load_file_def split: option.splits)

lemma emits_store_file [intro!]: "P (Ofstream_write filename str) \<Longrightarrow> emits P (store_file filename str)"
  unfolding store_file_def
  by (intro emits_bindE emits_call_unchecked emits_case_prod emits_if emits_failE)
     (simp_all add: emits_def returnE_def)

section \<open>The ISA check of the JIT pipeline\<close>








declare digits_of.simps [simp del]























section \<open>The calls of \<^verbatim>\<open>load_kernel\<close> and \<^verbatim>\<open>launch_kernel\<close>\<close>

lemma emits_mono: "emits P m \<Longrightarrow> (\<And>c. P c \<Longrightarrow> Q c) \<Longrightarrow> emits Q m"
  unfolding emits_def by (meson list.pred_mono_strong)

lemma trace_update_device [simp]: "trace (update_device dev f s) = trace s"
  by (simp add: update_device_def)

lemma emits_lock [intro!]: "emits P (lock dev)"
  by (rule emits_same_trace) (simp add: lock_def)

lemma emits_unlock [intro!]: "emits P (unlock dev)"
  by (rule emits_same_trace) (simp add: unlock_def)

lemma emits_get_device [intro!]: "emits P (get_device dev)"
  by (rule emits_same_trace) (simp add: get_device_def)

lemma emits_state_case_option [intro!]:
  "emits P a \<Longrightarrow> (\<And>v. emits P (g v)) \<Longrightarrow> emits P (\<lambda>s. case h s of None \<Rightarrow> a s | Some v \<Rightarrow> g v s)"
  by (auto simp: emits_def split: option.splits)

lemma emits_program_lookup: "emits P (program_lookup dev filename)"
  unfolding program_lookup_def
  by (intro emits_bindE emits_get_device emits_lock emits_state_case_option emits_unlock emits_returnE)

lemma emits_program_publish: "emits P (program_publish dev filename executable)"
  unfolding program_publish_def
  by (intro emits_bindE emits_lock emits_same_trace) (simp add: returnE_def)

lemma emits_kernel_publish: "emits P (kernel_publish dev executable kernelname t)"
  unfolding kernel_publish_def
  by (intro emits_bindE emits_lock emits_same_trace) (simp add: returnE_def)

lemma emits_kernel_lookup: "emits P (kernel_lookup dev executable kernelname)"
  by (rule emits_same_trace)
     (simp add: kernel_lookup_def Let_def bindE_def unlock_def returnE_def split: option.splits)

lemma emits_kernel_resolve:
  "emits is_symbol_call (kernel_resolve dev executable kernelname)"
  unfolding kernel_resolve_def
  by (intro emits_bindE emits_get_device emits_CHECK_HSA emits_same_trace)
     (simp_all add: is_symbol_call_def returnE_def)

lemma emits_emit_gcn_pipeline: "emits is_pipeline_call (emit_gcn program cpu filename opt)"
  unfolding emit_gcn_def Let_def
  apply (rule emits_state_if)
   apply (rule emits_failE)
  apply (intro emits_bindE emits_call_unchecked emits_llvm_call emits_if emits_failE emits_case_sum
               emits_store_file emits_load_file)
  apply (simp_all add: is_pipeline_call_def emits_def returnE_def)
  done

lemma emits_compile_gcn: "emits is_pipeline_call (compile_gcn dev filename program)"
  unfolding compile_gcn_def
  by (intro emits_bindE emits_get_device emits_emit_gcn_pipeline)

lemma emits_build_executable: "emits is_pipeline_call (build_executable dev filename)"
  unfolding build_executable_def Let_def
  apply (intro emits_if emits_failE emits_bindE emits_state_if emits_load_file emits_compile_gcn
      emits_get_device emits_CHECK_HSA emits_returnE)
  apply (simp_all add: is_pipeline_call_def)
  done

lemma emits_load_kernel: "emits is_load_kernel_call (load_kernel dev filename kernelname)"
  unfolding load_kernel_def
  apply (intro emits_bindE emits_program_lookup emits_case_option emits_returnE emits_program_publish
      emits_kernel_lookup emits_kernel_publish emits_unlock)
   apply (rule emits_mono[OF emits_build_executable], simp add: is_load_kernel_call_def)
  apply (rule emits_mono[OF emits_kernel_resolve], simp add: is_load_kernel_call_def)
  done

section \<open>What \<^verbatim>\<open>load_kernel\<close> leaves alone\<close>

lemma preservesI: "(\<And>s. g (snd (m s)) = g s) \<Longrightarrow> preserves g m"
  by (simp add: preserves_def)

lemma preservesD: "preserves g m \<Longrightarrow> g (snd (m s)) = g s"
  by (simp add: preserves_def)

lemma preserves_returnE: "preserves g (returnE x)"
  by (simp add: preserves_def returnE_def)

lemma preserves_failE: "preserves g (failE e)"
  by (simp add: preserves_def failE_def)

lemma preserves_bindE:
  assumes "preserves g m" and "\<And>x. preserves g (f x)"
  shows "preserves g (bindE m f)"
proof (rule preservesI)
  fix s
  obtain r s1 where ms: "m s = (r, s1)" by (cases "m s")
  have s1: "g s1 = g s" using preservesD[OF assms(1), of s] ms by simp
  show "g (snd (bindE m f s)) = g s"
  proof (cases r)
    case (Inl e)
    then show ?thesis using ms s1 by (simp add: bindE_def)
  next
    case (Inr x)
    then show ?thesis using ms s1 preservesD[OF assms(2), of x s1] by (simp add: bindE_def)
  qed
qed

lemma map_update_same:
  assumes "\<And>x. g (f x) = g x"
  shows "map g (xs[i := f (xs ! i)]) = map g xs"
proof (cases "i < length xs")
  case True
  then show ?thesis by (simp add: map_update assms list_update_same_conv)
next
  case False
  then have "xs[i := f (xs ! i)] = xs" by (intro list_update_beyond) simp
  then show ?thesis by simp
qed

lemma frame_ok_launch_frame: "frame_ok launch_frame"
  by (simp add: frame_ok_def launch_frame_def update_device_def map_update_same)

lemma ignores_programs_launch_frame: "ignores_programs launch_frame"
  by (simp add: ignores_programs_def launch_frame_def update_device_def map_update_same)

lemma frame_ok_cache_frame: "frame_ok cache_frame"
  by (simp add: frame_ok_def cache_frame_def update_device_def map_update_same)

lemma preserves_call_unchecked: "frame_ok g \<Longrightarrow> preserves g (call_unchecked c)"
  by (simp add: preserves_def call_unchecked_eq frame_ok_def)

lemma preserves_llvm_call: "frame_ok g \<Longrightarrow> preserves g (llvm_call c)"
  by (simp add: preserves_def llvm_call_eq frame_ok_def)

lemma preserves_CHECK_HSA: "frame_ok g \<Longrightarrow> preserves g (CHECK_HSA c name)"
  by (simp add: preserves_def CHECK_HSA_eq frame_ok_def)

lemma preserves_if:
  "(c \<Longrightarrow> preserves g a) \<Longrightarrow> (\<not> c \<Longrightarrow> preserves g b) \<Longrightarrow> preserves g (if c then a else b)"
  by simp

lemma preserves_state_if:
  "preserves g a \<Longrightarrow> preserves g b \<Longrightarrow> preserves g (\<lambda>s. if c s then a s else b s)"
  by (simp add: preserves_def)

lemma preserves_case_sum:
  "(\<And>e. x = Inl e \<Longrightarrow> preserves g (f e)) \<Longrightarrow> (\<And>v. x = Inr v \<Longrightarrow> preserves g (h v))
     \<Longrightarrow> preserves g (case x of Inl e \<Rightarrow> f e | Inr v \<Rightarrow> h v)"
  by (cases x) simp_all

lemma preserves_case_option:
  "(x = None \<Longrightarrow> preserves g a) \<Longrightarrow> (\<And>v. x = Some v \<Longrightarrow> preserves g (h v))
     \<Longrightarrow> preserves g (case x of None \<Rightarrow> a | Some v \<Rightarrow> h v)"
  by (cases x) simp_all

lemma preserves_state_case_option:
  "preserves g a \<Longrightarrow> (\<And>v. preserves g (h v))
     \<Longrightarrow> preserves g (\<lambda>s. case k s of None \<Rightarrow> a s | Some v \<Rightarrow> h v s)"
  by (auto simp: preserves_def split: option.splits)

lemma preserves_lock: "frame_ok g \<Longrightarrow> preserves g (lock dev)"
  by (simp add: preserves_def lock_def frame_ok_def)

lemma preserves_unlock: "frame_ok g \<Longrightarrow> preserves g (unlock dev)"
  by (simp add: preserves_def unlock_def frame_ok_def)

lemma preserves_get_device: "preserves g (get_device dev)"
  by (simp add: preserves_def get_device_def)

lemma preserves_load_file: "preserves g (load_file filename)"
  by (simp add: preserves_def load_file_def split: option.splits)

lemma preserves_store_file: "frame_ok g \<Longrightarrow> preserves g (store_file filename str)"
  unfolding store_file_def
  by (intro preserves_bindE preserves_call_unchecked)
     (auto simp: preserves_def returnE_def failE_def frame_ok_def)

lemma preserves_emit_gcn: "frame_ok g \<Longrightarrow> preserves g (emit_gcn program cpu filename opt)"
  unfolding emit_gcn_def Let_def
  apply (rule preserves_state_if)
   apply (rule preserves_failE)
  apply (intro preserves_bindE preserves_call_unchecked preserves_llvm_call preserves_if
      preserves_failE preserves_case_sum preserves_store_file preserves_load_file)
  apply (simp_all add: preserves_def returnE_def frame_ok_def)
  done

lemma preserves_compile_gcn: "frame_ok g \<Longrightarrow> preserves g (compile_gcn dev filename program)"
  unfolding compile_gcn_def
  by (intro preserves_bindE preserves_get_device preserves_emit_gcn)

lemma preserves_build_executable: "frame_ok g \<Longrightarrow> preserves g (build_executable dev filename)"
  unfolding build_executable_def Let_def
  by (intro preserves_if preserves_failE preserves_bindE preserves_state_if preserves_load_file
      preserves_compile_gcn preserves_get_device preserves_CHECK_HSA preserves_returnE)

lemma preserves_program_lookup: "frame_ok g \<Longrightarrow> preserves g (program_lookup dev filename)"
  unfolding program_lookup_def
  by (intro preserves_bindE preserves_get_device preserves_lock preserves_state_case_option
      preserves_unlock preserves_returnE)

lemma preserves_program_publish:
  "frame_ok g \<Longrightarrow> ignores_programs g \<Longrightarrow> preserves g (program_publish dev filename executable)"
  unfolding program_publish_def
  by (intro preserves_bindE preserves_lock preservesI)
     (simp_all add: returnE_def ignores_programs_def)

lemma preserves_kernel_publish:
  "frame_ok g \<Longrightarrow> preserves g (kernel_publish dev executable kernelname t)"
  unfolding kernel_publish_def
  by (intro preserves_bindE preserves_lock preservesI) (simp_all add: returnE_def frame_ok_def)

lemma preserves_kernel_lookup:
  "frame_ok g \<Longrightarrow> preserves g (kernel_lookup dev executable kernelname)"
  by (rule preservesI)
     (simp add: kernel_lookup_def Let_def bindE_def unlock_def returnE_def frame_ok_def
        split: option.splits)

lemma preserves_kernel_resolve:
  "frame_ok g \<Longrightarrow> preserves g (kernel_resolve dev executable kernelname)"
  unfolding kernel_resolve_def
  by (intro preserves_bindE preserves_get_device preserves_CHECK_HSA preservesI)
     (simp_all add: returnE_def)

lemma preserves_load_kernel:
  "frame_ok g \<Longrightarrow> ignores_programs g \<Longrightarrow> preserves g (load_kernel dev filename kernelname)"
  unfolding load_kernel_def
  by (intro preserves_bindE preserves_program_lookup preserves_case_option preserves_returnE
      preserves_program_publish preserves_kernel_lookup preserves_kernel_publish preserves_unlock
      preserves_build_executable preserves_kernel_resolve)

lemmas keeps_load_kernel = preserves_load_kernel[OF frame_ok_launch_frame ignores_programs_launch_frame]

section \<open>Submission of a kernel\<close>

lemma launch_kernel_eq:
  "launch_kernel dev file name grid block args =
     bindE (get_device dev) (\<lambda>d0.
     if queue d0 = None then failE (Fatal ''The selected HSA device cannot execute kernels'') else
     bindE (load_kernel dev file name) (submit_kernel dev grid block args))"
  unfolding launch_kernel_def submit_kernel_def aql_packet_def Let_def
  by (intro arg_cong2[where f=bindE] refl ext if_cong) (auto simp: split_def)

lemma submit_kernel_Inr:
  assumes "submit_kernel dev grid block args t s1 = (Inr (), s')"
  shows "\<exists>q st. dev < length (devices s1) \<and> queue (devices s1 ! dev) = Some q \<and>
     pack_args args (pack_init (memory s1 (Suc (length (trace s1))))) = Inr st \<and>
     (let d = devices s1 ! dev; ka = Suc (length (trace s1));
          ls = (if profiling_enabled s1 then Suc (Suc (Suc (length (trace s1)))) else signal d);
          slot = write_index q AND ucast (q_size q - 1);
          aql = aql_packet grid block t ka ls;
          sv1 = (signal_value s1)(signal d := signal_value s1 (signal d) + 1);
          sv2 = (if profiling_enabled s1 then sv1(ls := 1) else sv1)
      in trace s' = trace s1
           @ [Hsa_memory_allocate (kernarg_region d) (ucast (fst (snd t))),
              Hsa_signal_add_relaxed (signal d) 1]
           @ (if profiling_enabled s1 then [Hsa_signal_create 1] else [])
           @ [Hsa_queue_load_write_index_relaxed (queue_handle q),
              Queue_write (queue_handle q) slot aql,
              Hsa_queue_store_write_index_relaxed (queue_handle q) (write_index q + 1),
              Hsa_signal_store_relaxed (doorbell_signal q) (write_index q)]
           @ (if profiling_enabled s1 then [Thread_detach ls] else [])
       \<and> devices s' = (devices s1)[dev := d\<lparr> queue :=
             Some (q\<lparr> base_address := (base_address q)(slot \<mapsto> aql),
                      write_index := write_index q + 1 \<rparr>) \<rparr>]
       \<and> signal_value s' = sv2(doorbell_signal q := write_index q)
       \<and> memory s' = (memory s1)(ka := kernarg st)
       \<and> profiling_enabled s' = profiling_enabled s1)"
  using assms unfolding submit_kernel_def write_to_command_queue_def
  by (auto simp: bindE_def get_device_def CHECK_HSA_eq call_unchecked_eq returnE_def failE_def
        hsa_signal_add_relaxed_def hsa_signal_create_def hsa_signal_store_relaxed_def
        update_device_def Let_def
      split: if_splits sum.splits option.splits prod.splits)

lemma emits_submit_kernel: "emits is_submit_call (submit_kernel dev grid block args t)"
  unfolding submit_kernel_def write_to_command_queue_def hsa_signal_add_relaxed_def
    hsa_signal_create_def hsa_signal_store_relaxed_def Let_def
  apply (intro emits_bindE emits_get_device emits_CHECK_HSA emits_call_unchecked emits_state_if
      emits_returnE emits_case_option emits_failE)
  apply (simp_all add: is_submit_call_def is_queue_call_def)
  apply (simp_all add: emits_def returnE_def failE_def split: sum.splits)
  done

lemma emits_at_bindE:
  assumes "\<exists>evs. trace (snd (m s)) = trace s @ evs \<and> list_all P evs" and "\<And>x. emits P (f x)"
  shows "\<exists>evs. trace (snd (bindE m f s)) = trace s @ evs \<and> list_all P evs"
proof -
  obtain r s1 where ms: "m s = (r, s1)" by (cases "m s")
  from assms(1) ms obtain evs where e1: "trace s1 = trace s @ evs" "list_all P evs" by auto
  show ?thesis
  proof (cases r)
    case (Inl e)
    then show ?thesis using ms e1 by (simp add: bindE_def)
  next
    case (Inr x)
    from emitsD[OF assms(2), of x s1] obtain evs2 where
      e2: "trace (snd (f x s1)) = trace s1 @ evs2" "list_all P evs2" by auto
    have "trace (snd (bindE m f s)) = trace s @ (evs @ evs2)"
      using Inr ms e1 e2 by (simp add: bindE_def)
    moreover have "list_all P (evs @ evs2)" using e1 e2 by simp
    ultimately show ?thesis by blast
  qed
qed

lemma load_kernel_call_not_queue: "is_load_kernel_call c \<Longrightarrow> \<not> is_queue_call c"
  by (cases c) (simp_all add: is_load_kernel_call_def is_pipeline_call_def is_symbol_call_def is_queue_call_def)

lemma load_kernel_call_not_wait: "is_load_kernel_call c \<Longrightarrow> \<not> is_signal_wait c"
  by (cases c) (simp_all add: is_load_kernel_call_def is_pipeline_call_def is_symbol_call_def is_signal_wait_def)

lemma submit_call_not_wait: "is_submit_call c \<Longrightarrow> \<not> is_signal_wait c"
  by (cases c) (simp_all add: is_submit_call_def is_queue_call_def is_signal_wait_def)

lemma submit_call_not_pipeline: "is_submit_call c \<Longrightarrow> \<not> is_pipeline_call c"
  by (cases c) (simp_all add: is_submit_call_def is_queue_call_def is_pipeline_call_def)

lemma symbol_call_not_pipeline: "is_symbol_call c \<Longrightarrow> \<not> is_pipeline_call c"
  by (cases c) (simp_all add: is_symbol_call_def is_pipeline_call_def)

lemma ring_slot_mod:
  fixes x :: uint64_t
  assumes "k < 32"
  shows "x AND ucast ((2 ^ k :: uint32_t) - 1) = x mod 2 ^ k"
proof -
  have "(2 ^ k :: uint32_t) - 1 = mask k" by (simp add: mask_eq_decr_exp)
  moreover have "(ucast (mask k :: uint32_t) :: uint64_t) = mask k"
    using assms by (simp add: ucast_mask_eq)
  ultimately show ?thesis
    by (simp flip: take_bit_eq_mask add: take_bit_eq_mod)
qed

lemma launch_kernel_Inr:
  assumes "launch_kernel dev file name grid block args s = (Inr (), s')"
  shows "\<exists>t s1 evs. dev < length (devices s) \<and> queue (devices s ! dev) \<noteq> None
           \<and> load_kernel dev file name s = (Inr t, s1)
           \<and> submit_kernel dev grid block args t s1 = (Inr (), s')
           \<and> launch_frame s1 = launch_frame s
           \<and> trace s1 = trace s @ evs \<and> list_all is_load_kernel_call evs"
proof -
  from assms obtain t s1 where
    dev: "dev < length (devices s)" and q0: "queue (devices s ! dev) \<noteq> None"
    and lk: "load_kernel dev file name s = (Inr t, s1)"
    and sk: "submit_kernel dev grid block args t s1 = (Inr (), s')"
    unfolding launch_kernel_eq
    by (auto simp: bindE_Inr get_device_def failE_def split: if_splits)
  have fr: "launch_frame s1 = launch_frame s"
    using preservesD[OF keeps_load_kernel, of dev "file" name s] lk by simp
  from emitsD[OF emits_load_kernel, of dev "file" name s] lk obtain evs where
    "trace s1 = trace s @ evs" "list_all is_load_kernel_call evs" by auto
  then show ?thesis using dev q0 lk sk fr by blast
qed

lemma launch_frame_nth:
  assumes "launch_frame s1 = launch_frame s" and "dev < length (devices s)"
  shows "dev < length (devices s1) \<and> queue (devices s1 ! dev) = queue (devices s ! dev)
       \<and> signal (devices s1 ! dev) = signal (devices s ! dev)
       \<and> kernarg_region (devices s1 ! dev) = kernarg_region (devices s ! dev)
       \<and> signal_value s1 = signal_value s \<and> profiling_enabled s1 = profiling_enabled s"
proof -
  have m: "map queue (devices s1) = map queue (devices s)"
       "map signal (devices s1) = map signal (devices s)"
       "map kernarg_region (devices s1) = map kernarg_region (devices s)"
    using assms(1) by (simp_all add: launch_frame_def)
  have len: "length (devices s1) = length (devices s)" using m(1) by (metis length_map)
  have "queue (devices s1 ! dev) = queue (devices s ! dev)"
    using m(1) len assms(2) by (metis nth_map)
  moreover have "signal (devices s1 ! dev) = signal (devices s ! dev)"
    using m(2) len assms(2) by (metis nth_map)
  moreover have "kernarg_region (devices s1 ! dev) = kernarg_region (devices s ! dev)"
    using m(3) len assms(2) by (metis nth_map)
  ultimately show ?thesis using len assms by (simp add: launch_frame_def)
qed

lemma launch_kernel_submission:
  assumes "launch_kernel dev file name grid block args s = (Inr (), s')"
  shows "\<exists>q pre mid post aql.
           queue (devices s ! dev) = Some q
         \<and> trace s' = trace s @ pre @ [Hsa_signal_add_relaxed (signal (devices s ! dev)) 1] @ mid
              @ [Hsa_queue_load_write_index_relaxed (queue_handle q),
                 Queue_write (queue_handle q) (write_index q AND ucast (q_size q - 1)) aql,
                 Hsa_queue_store_write_index_relaxed (queue_handle q) (write_index q + 1),
                 Hsa_signal_store_relaxed (doorbell_signal q) (write_index q)] @ post
         \<and> list_all (\<lambda>c. \<not> is_queue_call c) (pre @ mid @ post)
         \<and> queue (devices s' ! dev) =
               Some (q\<lparr> base_address := (base_address q)(write_index q AND ucast (q_size q - 1) \<mapsto> aql),
                        write_index := write_index q + 1 \<rparr>)
         \<and> (\<forall>k<32. q_size q = 2 ^ k \<longrightarrow>
               write_index q AND ucast (q_size q - 1) = write_index q mod 2 ^ k)"
proof -
  from launch_kernel_Inr[OF assms] obtain t s1 evs where
    dev: "dev < length (devices s)"
    and sk: "submit_kernel dev grid block args t s1 = (Inr (), s')"
    and fr: "launch_frame s1 = launch_frame s"
    and tr: "trace s1 = trace s @ evs" and evs: "list_all is_load_kernel_call evs"
    by blast
  note f = launch_frame_nth[OF fr dev]
  from submit_kernel_Inr[OF sk] f obtain q where
    q: "queue (devices s ! dev) = Some q"
    and x: "let d = devices s1 ! dev; ka = Suc (length (trace s1));
          ls = (if profiling_enabled s1 then Suc (Suc (Suc (length (trace s1)))) else signal d);
          slot = write_index q AND ucast (q_size q - 1);
          aql = aql_packet grid block t ka ls
      in trace s' = trace s1
           @ [Hsa_memory_allocate (kernarg_region d) (ucast (fst (snd t))),
              Hsa_signal_add_relaxed (signal d) 1]
           @ (if profiling_enabled s1 then [Hsa_signal_create 1] else [])
           @ [Hsa_queue_load_write_index_relaxed (queue_handle q),
              Queue_write (queue_handle q) slot aql,
              Hsa_queue_store_write_index_relaxed (queue_handle q) (write_index q + 1),
              Hsa_signal_store_relaxed (doorbell_signal q) (write_index q)]
           @ (if profiling_enabled s1 then [Thread_detach ls] else [])
       \<and> devices s' = (devices s1)[dev := d\<lparr> queue :=
             Some (q\<lparr> base_address := (base_address q)(slot \<mapsto> aql),
                      write_index := write_index q + 1 \<rparr>) \<rparr>]"
    by (auto simp: Let_def)
  let ?d = "devices s1 ! dev"
  let ?ls = "if profiling_enabled s1 then Suc (Suc (Suc (length (trace s1)))) else signal ?d"
  let ?aql = "aql_packet grid block t (Suc (length (trace s1))) ?ls"
  let ?pre = "evs @ [Hsa_memory_allocate (kernarg_region ?d) (ucast (fst (snd t)))]"
  let ?mid = "if profiling_enabled s1 then [Hsa_signal_create 1] else []"
  let ?post = "if profiling_enabled s1 then [Thread_detach ?ls] else []"
  have t: "trace s' = trace s @ ?pre @ [Hsa_signal_add_relaxed (signal (devices s ! dev)) 1] @ ?mid
              @ [Hsa_queue_load_write_index_relaxed (queue_handle q),
                 Queue_write (queue_handle q) (write_index q AND ucast (q_size q - 1)) ?aql,
                 Hsa_queue_store_write_index_relaxed (queue_handle q) (write_index q + 1),
                 Hsa_signal_store_relaxed (doorbell_signal q) (write_index q)] @ ?post"
    using x tr f by (simp add: Let_def)
  have "list_all (\<lambda>c. \<not> is_queue_call c) evs"
    using evs load_kernel_call_not_queue by (auto simp: list_all_iff)
  then have n: "list_all (\<lambda>c. \<not> is_queue_call c) (?pre @ ?mid @ ?post)"
    by (simp add: is_queue_call_def)
  have d: "queue (devices s' ! dev) =
               Some (q\<lparr> base_address := (base_address q)(write_index q AND ucast (q_size q - 1) \<mapsto> ?aql),
                        write_index := write_index q + 1 \<rparr>)"
    using x f by (simp add: Let_def)
  have m: "\<forall>k<32. q_size q = 2 ^ k \<longrightarrow>
               write_index q AND ucast (q_size q - 1) = write_index q mod 2 ^ k"
    using ring_slot_mod by auto
  show ?thesis using q t n d m by blast
qed

lemmas launch_defs =
  launch_kernel_def load_kernel_def program_lookup_def kernel_lookup_def kernel_map_of_def
  write_to_command_queue_def hsa_signal_add_relaxed_def hsa_signal_create_def
  hsa_signal_store_relaxed_def bindE_def returnE_def failE_def get_device_def lock_def unlock_def
  update_device_def CHECK_HSA_eq call_unchecked_eq Let_def

lemma launch_world1_ok:
  "fst (launch_kernel 0 ''k.gcn'' ''main'' (64, 1, 1) (16, 1, 1) example_args world1) = Inr ()"
  by (simp add: launch_defs world1_def world0_def device0_def example_args_def pack_init_def
        align_address_def)

text \<open>
  Claim C7.  A launch that returns has written the packet into the ring buffer of the
  device's queue at the slot \<^verbatim>\<open>index & (size - 1)\<close>, where \<^verbatim>\<open>index\<close> is the write index at
  entry; that slot is \<^verbatim>\<open>index\<close> modulo the capacity when the capacity is a power of two.
  In the order of calls, the completion signal is incremented first, then the packet is
  written, then the write index is stored as \<^verbatim>\<open>index + 1\<close>, then the doorbell is signalled
  with \<^verbatim>\<open>index\<close>; no other queue or doorbell operation is made.  The queue is left with
  write index \<^verbatim>\<open>index + 1\<close>, so the next launch on the device writes its packet to the
  slot of \<^verbatim>\<open>index + 1\<close>, after the first in the list of calls: submissions of one
  thread keep their order.
\<close>

theorem launch_kernel_submission_order:
  assumes "launch_kernel dev file name grid block args s = (Inr (), s')"
  shows "\<exists>q pre mid post aql.
           queue (devices s ! dev) = Some q
         \<and> trace s' = trace s @ pre @ [Hsa_signal_add_relaxed (signal (devices s ! dev)) 1] @ mid
              @ [Hsa_queue_load_write_index_relaxed (queue_handle q),
                 Queue_write (queue_handle q) (write_index q AND ucast (q_size q - 1)) aql,
                 Hsa_queue_store_write_index_relaxed (queue_handle q) (write_index q + 1),
                 Hsa_signal_store_relaxed (doorbell_signal q) (write_index q)] @ post
         \<and> list_all (\<lambda>c. \<not> is_queue_call c) (pre @ mid @ post)
         \<and> queue (devices s' ! dev) =
               Some (q\<lparr> base_address := (base_address q)(write_index q AND ucast (q_size q - 1) \<mapsto> aql),
                        write_index := write_index q + 1 \<rparr>)
         \<and> (\<forall>k<32. q_size q = 2 ^ k \<longrightarrow>
               write_index q AND ucast (q_size q - 1) = write_index q mod 2 ^ k)
         \<and> (\<forall>file2 name2 grid2 block2 args2 s''.
               launch_kernel dev file2 name2 grid2 block2 args2 s' = (Inr (), s'') \<longrightarrow>
               (\<exists>pre2 mid2 post2 aql2.
                  trace s'' = trace s' @ pre2
                    @ [Hsa_signal_add_relaxed (signal (devices s' ! dev)) 1] @ mid2
                    @ [Hsa_queue_load_write_index_relaxed (queue_handle q),
                       Queue_write (queue_handle q) ((write_index q + 1) AND ucast (q_size q - 1)) aql2,
                       Hsa_queue_store_write_index_relaxed (queue_handle q) (write_index q + 2),
                       Hsa_signal_store_relaxed (doorbell_signal q) (write_index q + 1)] @ post2
                \<and> list_all (\<lambda>c. \<not> is_queue_call c) (pre2 @ mid2 @ post2)))"
proof -
  from launch_kernel_submission[OF assms] obtain q pre mid post aql where
    a: "queue (devices s ! dev) = Some q"
       "trace s' = trace s @ pre @ [Hsa_signal_add_relaxed (signal (devices s ! dev)) 1] @ mid
              @ [Hsa_queue_load_write_index_relaxed (queue_handle q),
                 Queue_write (queue_handle q) (write_index q AND ucast (q_size q - 1)) aql,
                 Hsa_queue_store_write_index_relaxed (queue_handle q) (write_index q + 1),
                 Hsa_signal_store_relaxed (doorbell_signal q) (write_index q)] @ post"
       "list_all (\<lambda>c. \<not> is_queue_call c) (pre @ mid @ post)"
       "queue (devices s' ! dev) =
               Some (q\<lparr> base_address := (base_address q)(write_index q AND ucast (q_size q - 1) \<mapsto> aql),
                        write_index := write_index q + 1 \<rparr>)"
       "\<forall>k<32. q_size q = 2 ^ k \<longrightarrow>
               write_index q AND ucast (q_size q - 1) = write_index q mod 2 ^ k"
    by blast
  let ?q' = "q\<lparr> base_address := (base_address q)(write_index q AND ucast (q_size q - 1) \<mapsto> aql),
                write_index := write_index q + 1 \<rparr>"
  have b: "\<forall>file2 name2 grid2 block2 args2 s''.
               launch_kernel dev file2 name2 grid2 block2 args2 s' = (Inr (), s'') \<longrightarrow>
               (\<exists>pre2 mid2 post2 aql2.
                  trace s'' = trace s' @ pre2
                    @ [Hsa_signal_add_relaxed (signal (devices s' ! dev)) 1] @ mid2
                    @ [Hsa_queue_load_write_index_relaxed (queue_handle q),
                       Queue_write (queue_handle q) ((write_index q + 1) AND ucast (q_size q - 1)) aql2,
                       Hsa_queue_store_write_index_relaxed (queue_handle q) (write_index q + 2),
                       Hsa_signal_store_relaxed (doorbell_signal q) (write_index q + 1)] @ post2
                \<and> list_all (\<lambda>c. \<not> is_queue_call c) (pre2 @ mid2 @ post2))"
  proof (intro allI impI)
    fix file2 name2 grid2 block2 args2 s''
    assume l2: "launch_kernel dev file2 name2 grid2 block2 args2 s' = (Inr (), s'')"
    from launch_kernel_submission[OF l2] a(4) obtain pre2 mid2 post2 aql2 where
      "trace s'' = trace s' @ pre2 @ [Hsa_signal_add_relaxed (signal (devices s' ! dev)) 1] @ mid2
              @ [Hsa_queue_load_write_index_relaxed (queue_handle ?q'),
                 Queue_write (queue_handle ?q') (write_index ?q' AND ucast (q_size ?q' - 1)) aql2,
                 Hsa_queue_store_write_index_relaxed (queue_handle ?q') (write_index ?q' + 1),
                 Hsa_signal_store_relaxed (doorbell_signal ?q') (write_index ?q')] @ post2"
      "list_all (\<lambda>c. \<not> is_queue_call c) (pre2 @ mid2 @ post2)"
      by auto
    moreover have "write_index q + 1 + 1 = write_index q + 2" by simp
    ultimately show "\<exists>pre2 mid2 post2 aql2.
                  trace s'' = trace s' @ pre2
                    @ [Hsa_signal_add_relaxed (signal (devices s' ! dev)) 1] @ mid2
                    @ [Hsa_queue_load_write_index_relaxed (queue_handle q),
                       Queue_write (queue_handle q) ((write_index q + 1) AND ucast (q_size q - 1)) aql2,
                       Hsa_queue_store_write_index_relaxed (queue_handle q) (write_index q + 2),
                       Hsa_signal_store_relaxed (doorbell_signal q) (write_index q + 1)] @ post2
                \<and> list_all (\<lambda>c. \<not> is_queue_call c) (pre2 @ mid2 @ post2)"
      by (simp del: append_assoc) blast
  qed
  show ?thesis using a b by blast
qed

theorem launch_kernel_submission_order_witness:
  "fst (launch_kernel 0 ''k.gcn'' ''main'' (64, 1, 1) (16, 1, 1) example_args world1) = Inr ()
   \<and> (\<exists>pre mid post aql.
        trace (snd (launch_kernel 0 ''k.gcn'' ''main'' (64, 1, 1) (16, 1, 1) example_args world1))
          = pre @ [Hsa_signal_add_relaxed 11 1] @ mid
              @ [Hsa_queue_load_write_index_relaxed 10, Queue_write 10 1 aql,
                 Hsa_queue_store_write_index_relaxed 10 6, Hsa_signal_store_relaxed 10 5] @ post)"
proof -
  let ?r = "launch_kernel 0 ''k.gcn'' ''main'' (64, 1, 1) (16, 1, 1) example_args world1"
  have h: "?r = (Inr (), snd ?r)" using launch_world1_ok by (metis prod.collapse)
  have q: "queue (devices world1 ! 0) =
      Some \<lparr> queue_handle = 10, q_size = 4, base_address = (\<lambda>_. None),
             doorbell_signal = 10, write_index = 5 \<rparr>"
    and "signal (devices world1 ! 0) = 11" and "trace world1 = []"
    by (simp_all add: world1_def world0_def device0_def)
  with launch_kernel_submission_order[OF h] launch_world1_ok show ?thesis
    by auto
qed

lemma emits_launch_kernel_no_wait:
  "emits (\<lambda>c. \<not> is_signal_wait c) (launch_kernel dev file name grid block args)"
  unfolding launch_kernel_eq
  apply (intro emits_bindE emits_get_device emits_if emits_failE)
   apply (rule emits_mono[OF emits_load_kernel], erule load_kernel_call_not_wait)
  apply (rule emits_mono[OF emits_submit_kernel], erule submit_call_not_wait)
  done

lemma launch_kernel_no_profiling:
  assumes "launch_kernel dev file name grid block args s = (Inr (), s')"
    and "\<not> profiling_enabled s"
  shows "\<exists>q pre aql.
           queue (devices s ! dev) = Some q
         \<and> completion_signal aql = signal (devices s ! dev)
         \<and> trace s' = trace s @ pre @ [Hsa_signal_add_relaxed (signal (devices s ! dev)) 1,
                 Hsa_queue_load_write_index_relaxed (queue_handle q),
                 Queue_write (queue_handle q) (write_index q AND ucast (q_size q - 1)) aql,
                 Hsa_queue_store_write_index_relaxed (queue_handle q) (write_index q + 1),
                 Hsa_signal_store_relaxed (doorbell_signal q) (write_index q)]
         \<and> (doorbell_signal q \<noteq> signal (devices s ! dev) \<longrightarrow>
               signal_value s' (signal (devices s ! dev))
                 = signal_value s (signal (devices s ! dev)) + 1)"
proof -
  from launch_kernel_Inr[OF assms(1)] obtain t s1 evs where
    dev: "dev < length (devices s)"
    and sk: "submit_kernel dev grid block args t s1 = (Inr (), s')"
    and fr: "launch_frame s1 = launch_frame s"
    and tr: "trace s1 = trace s @ evs"
    by blast
  note f = launch_frame_nth[OF fr dev]
  have np: "\<not> profiling_enabled s1" using f assms(2) by simp
  from submit_kernel_Inr[OF sk] f np obtain q where
    q: "queue (devices s ! dev) = Some q"
    and x: "trace s' = trace s1
           @ [Hsa_memory_allocate (kernarg_region (devices s1 ! dev)) (ucast (fst (snd t))),
              Hsa_signal_add_relaxed (signal (devices s1 ! dev)) 1,
              Hsa_queue_load_write_index_relaxed (queue_handle q),
              Queue_write (queue_handle q) (write_index q AND ucast (q_size q - 1))
                (aql_packet grid block t (Suc (length (trace s1))) (signal (devices s1 ! dev))),
              Hsa_queue_store_write_index_relaxed (queue_handle q) (write_index q + 1),
              Hsa_signal_store_relaxed (doorbell_signal q) (write_index q)]"
       "signal_value s' = ((signal_value s1)(signal (devices s1 ! dev) :=
            signal_value s1 (signal (devices s1 ! dev)) + 1))(doorbell_signal q := write_index q)"
    by (auto simp: Let_def)
  let ?aql = "aql_packet grid block t (Suc (length (trace s1))) (signal (devices s1 ! dev))"
  let ?pre = "evs @ [Hsa_memory_allocate (kernarg_region (devices s1 ! dev)) (ucast (fst (snd t)))]"
  have c: "completion_signal ?aql = signal (devices s ! dev)"
    using f by (simp add: aql_packet_def split_def)
  have t: "trace s' = trace s @ ?pre @ [Hsa_signal_add_relaxed (signal (devices s ! dev)) 1,
                 Hsa_queue_load_write_index_relaxed (queue_handle q),
                 Queue_write (queue_handle q) (write_index q AND ucast (q_size q - 1)) ?aql,
                 Hsa_queue_store_write_index_relaxed (queue_handle q) (write_index q + 1),
                 Hsa_signal_store_relaxed (doorbell_signal q) (write_index q)]"
    using x(1) tr f by simp
  have v: "doorbell_signal q \<noteq> signal (devices s ! dev) \<longrightarrow>
               signal_value s' (signal (devices s ! dev))
                 = signal_value s (signal (devices s ! dev)) + 1"
    using x(2) f by simp
  show ?thesis using q c t v by blast
qed

lemma cu_launch_kernel_Inr:
  assumes "cu_launch_kernel kname cs = (Inr (), cs')"
  shows "\<exists>grid. compute_grid (cuDimProblem cs) (cuDimBlock cs) = Inr grid
        \<and> cu_trace cs' = cu_trace cs @ [CuEventCreate, CuEventCreate, CuEventRecord,
             CuLaunchKernel (cuFunction cs) grid (cuDimBlock cs) (cuArgs cs), CuCtxSynchronize,
             CuEventRecord, CuEventSynchronize, CuEventElapsedTime, CuEventDestroy, CuEventDestroy]"
  using assms unfolding cu_launch_kernel_def
  by (auto simp: cu_call_def checkErrDrv_def Let_def split: sum.splits if_splits)

text \<open>
  Claim C3, as the code has it.  The launch of \<^verbatim>\<open>cu_runtime.cpp\<close> calls
  \<^verbatim>\<open>cuCtxSynchronize\<close> right after \<^verbatim>\<open>cuLaunchKernel\<close>, so it returns only when the work
  is done.  \<^verbatim>\<open>HSAPlatform::launch_kernel\<close> never waits on a signal: with profiling
  disabled it adds 1 to the device's completion signal, submits the packet with that
  signal as its completion signal, and returns right after the doorbell, the signal
  still counting the launch.  Waiting is what \<^verbatim>\<open>synchronize\<close> does: it makes one call,
  \<^verbatim>\<open>hsa_signal_wait_relaxed\<close> on the device's signal with the condition
  \<^verbatim>\<open>HSA_SIGNAL_CONDITION_EQ\<close>, the value 0, the timeout \<^verbatim>\<open>UINT64_MAX\<close> and the active wait
  state, so it asks the driver to wait until that signal equals 0.
\<close>

theorem launch_kernel_blocking:
  "(\<exists>evs. trace (snd (launch_kernel dev file name grid block args s)) = trace s @ evs
          \<and> list_all (\<lambda>c. \<not> is_signal_wait c) evs)
   \<and> (launch_kernel dev file name grid block args s = (Inr (), s') \<and> \<not> profiling_enabled s \<longrightarrow>
        (\<exists>q pre aql.
           queue (devices s ! dev) = Some q
         \<and> completion_signal aql = signal (devices s ! dev)
         \<and> trace s' = trace s @ pre @ [Hsa_signal_add_relaxed (signal (devices s ! dev)) 1,
                 Hsa_queue_load_write_index_relaxed (queue_handle q),
                 Queue_write (queue_handle q) (write_index q AND ucast (q_size q - 1)) aql,
                 Hsa_queue_store_write_index_relaxed (queue_handle q) (write_index q + 1),
                 Hsa_signal_store_relaxed (doorbell_signal q) (write_index q)]
         \<and> (doorbell_signal q \<noteq> signal (devices s ! dev) \<longrightarrow>
               signal_value s' (signal (devices s ! dev))
                 = signal_value s (signal (devices s ! dev)) + 1)))
   \<and> (dev < length (devices s) \<longrightarrow>
        synchronize dev s =
          (Inr (), s\<lparr> trace := trace s @ [Hsa_signal_wait_relaxed (signal (devices s ! dev))
                 HSA_SIGNAL_CONDITION_EQ 0 UINT64_MAX HSA_WAIT_STATE_ACTIVE] \<rparr>))
   \<and> (cu_launch_kernel kname cs = (Inr (), cs') \<longrightarrow>
        (\<exists>g. cu_trace cs' = cu_trace cs @ [CuEventCreate, CuEventCreate, CuEventRecord,
             CuLaunchKernel (cuFunction cs) g (cuDimBlock cs) (cuArgs cs), CuCtxSynchronize,
             CuEventRecord, CuEventSynchronize, CuEventElapsedTime, CuEventDestroy, CuEventDestroy]))"
proof (intro conjI impI)
  show "\<exists>evs. trace (snd (launch_kernel dev file name grid block args s)) = trace s @ evs
          \<and> list_all (\<lambda>c. \<not> is_signal_wait c) evs"
    by (rule emitsD[OF emits_launch_kernel_no_wait])
  show "dev < length (devices s) \<Longrightarrow> synchronize dev s =
          (Inr (), s\<lparr> trace := trace s @ [Hsa_signal_wait_relaxed (signal (devices s ! dev))
                 HSA_SIGNAL_CONDITION_EQ 0 UINT64_MAX HSA_WAIT_STATE_ACTIVE] \<rparr>)"
    by (simp add: synchronize_def bindE_def get_device_def call_unchecked_eq returnE_def)
  show "cu_launch_kernel kname cs = (Inr (), cs') \<Longrightarrow>
        (\<exists>g. cu_trace cs' = cu_trace cs @ [CuEventCreate, CuEventCreate, CuEventRecord,
             CuLaunchKernel (cuFunction cs) g (cuDimBlock cs) (cuArgs cs), CuCtxSynchronize,
             CuEventRecord, CuEventSynchronize, CuEventElapsedTime, CuEventDestroy, CuEventDestroy])"
    using cu_launch_kernel_Inr by blast
  show "launch_kernel dev file name grid block args s = (Inr (), s') \<and> \<not> profiling_enabled s \<Longrightarrow>
        (\<exists>q pre aql.
           queue (devices s ! dev) = Some q
         \<and> completion_signal aql = signal (devices s ! dev)
         \<and> trace s' = trace s @ pre @ [Hsa_signal_add_relaxed (signal (devices s ! dev)) 1,
                 Hsa_queue_load_write_index_relaxed (queue_handle q),
                 Queue_write (queue_handle q) (write_index q AND ucast (q_size q - 1)) aql,
                 Hsa_queue_store_write_index_relaxed (queue_handle q) (write_index q + 1),
                 Hsa_signal_store_relaxed (doorbell_signal q) (write_index q)]
         \<and> (doorbell_signal q \<noteq> signal (devices s ! dev) \<longrightarrow>
               signal_value s' (signal (devices s ! dev))
                 = signal_value s (signal (devices s ! dev)) + 1))"
    using launch_kernel_no_profiling by blast
qed

text \<open>
  Claim C3 as stated fails for the HSA platform: with profiling disabled, this launch
  returns after six calls, none of which waits, and the completion signal is 1.
\<close>

theorem launch_kernel_returns_without_waiting:
  "\<not> profiling_enabled world1
   \<and> fst (launch_kernel 0 ''k.gcn'' ''main'' (64, 1, 1) (16, 1, 1) example_args world1) = Inr ()
   \<and> trace (snd (launch_kernel 0 ''k.gcn'' ''main'' (64, 1, 1) (16, 1, 1) example_args world1))
       = [Hsa_memory_allocate 3 40, Hsa_signal_add_relaxed 11 1,
          Hsa_queue_load_write_index_relaxed 10,
          Queue_write 10 1 (aql_packet (64, 1, 1) (16, 1, 1) (4096, 40, 0, 0) 1 11),
          Hsa_queue_store_write_index_relaxed 10 6, Hsa_signal_store_relaxed 10 5]
   \<and> signal_value world1 11 = 0
   \<and> signal_value (snd (launch_kernel 0 ''k.gcn'' ''main'' (64, 1, 1) (16, 1, 1) example_args world1)) 11 = 1"
  by (simp add: launch_defs world1_def world0_def device0_def example_args_def pack_init_def
        align_address_def aql_packet_def)

theorem launch_kernel_blocking_witness:
  "\<not> profiling_enabled world1
   \<and> fst (launch_kernel 0 ''k.gcn'' ''main'' (64, 1, 1) (16, 1, 1) example_args world1) = Inr ()
   \<and> fst (synchronize 0 world1) = Inr ()
   \<and> fst (cu_launch_kernel ''k'' cu0) = Inr ()
   \<and> (\<exists>pre aql. completion_signal aql = 11
        \<and> trace (snd (launch_kernel 0 ''k.gcn'' ''main'' (64, 1, 1) (16, 1, 1) example_args world1))
            = pre @ [Hsa_signal_add_relaxed 11 1, Hsa_queue_load_write_index_relaxed 10,
                     Queue_write 10 1 aql, Hsa_queue_store_write_index_relaxed 10 6,
                     Hsa_signal_store_relaxed 10 5])
   \<and> signal_value (snd (launch_kernel 0 ''k.gcn'' ''main'' (64, 1, 1) (16, 1, 1) example_args world1)) 11 = 1
   \<and> trace (snd (synchronize 0 world1))
       = [Hsa_signal_wait_relaxed 11 HSA_SIGNAL_CONDITION_EQ 0 UINT64_MAX HSA_WAIT_STATE_ACTIVE]
   \<and> CuCtxSynchronize \<in> set (cu_trace (snd (cu_launch_kernel ''k'' cu0)))"
proof -
  let ?r = "launch_kernel 0 ''k.gcn'' ''main'' (64, 1, 1) (16, 1, 1) example_args world1"
  let ?c = "cu_launch_kernel ''k'' cu0"
  have h: "?r = (Inr (), snd ?r)" using launch_world1_ok by (metis prod.collapse)
  have np: "\<not> profiling_enabled world1" by (simp add: world1_def world0_def)
  have q: "queue (devices world1 ! 0) =
      Some \<lparr> queue_handle = 10, q_size = 4, base_address = (\<lambda>_. None),
             doorbell_signal = 10, write_index = 5 \<rparr>"
    and g: "signal (devices world1 ! 0) = 11" "trace world1 = []" "signal_value world1 11 = 0"
      "0 < length (devices world1)"
    by (simp_all add: world1_def world0_def device0_def)
  have cu: "fst ?c = Inr ()"
    by (simp add: cu_launch_kernel_def cu0_def compute_grid_def udiv_def cu_call_def checkErrDrv_def)
  then have hc: "?c = (Inr (), snd ?c)" by (metis prod.collapse)
  note th = launch_kernel_blocking[of 0 "''k.gcn''" "''main''" "(64, 1, 1)" "(16, 1, 1)" example_args
      world1 "snd ?r" "''k''" cu0 "snd ?c"]
  from th h np q g have a: "\<exists>pre aql. completion_signal aql = 11
        \<and> trace (snd ?r) = pre @ [Hsa_signal_add_relaxed 11 1, Hsa_queue_load_write_index_relaxed 10,
                     Queue_write 10 1 aql, Hsa_queue_store_write_index_relaxed 10 6,
                     Hsa_signal_store_relaxed 10 5]"
    by auto
  from th h np q g have b: "signal_value (snd ?r) 11 = 1" by auto
  from th g have c: "trace (snd (synchronize 0 world1))
       = [Hsa_signal_wait_relaxed 11 HSA_SIGNAL_CONDITION_EQ 0 UINT64_MAX HSA_WAIT_STATE_ACTIVE]" by simp
  from th hc have d: "CuCtxSynchronize \<in> set (cu_trace (snd ?c))" by auto
  from th g have e: "fst (synchronize 0 world1) = Inr ()" by simp
  show ?thesis using np a b c d e cu launch_world1_ok by blast
qed

lemma load_kernel_hit:
  assumes "dev < length (devices s)" and "\<not> locked (devices s ! dev)"
    and "programs (devices s ! dev) filename = Some executable"
  shows "load_kernel dev filename kernelname s =
           load_kernel_cached dev executable kernelname
             (update_device dev (\<lambda>d. d\<lparr> locked := True \<rparr>) s)"
  using assms
  by (simp add: load_kernel_def load_kernel_cached_def program_lookup_def bindE_def get_device_def
        lock_def returnE_def update_device_def)

lemma emits_load_kernel_cached:
  "emits is_symbol_call (load_kernel_cached dev executable kernelname)"
  unfolding load_kernel_cached_def
  by (intro emits_bindE emits_case_option emits_returnE emits_kernel_lookup emits_kernel_publish
      emits_unlock emits_kernel_resolve)

lemma preserves_load_kernel_cached:
  "frame_ok g \<Longrightarrow> preserves g (load_kernel_cached dev executable kernelname)"
  unfolding load_kernel_cached_def
  by (intro preserves_bindE preserves_case_option preserves_returnE
      preserves_kernel_lookup preserves_kernel_publish preserves_unlock preserves_kernel_resolve)

section \<open>The program cache\<close>

lemma load_kernel_eq:
  "load_kernel dev filename kernelname =
     bindE (program_lookup dev filename) (\<lambda>prog_it.
     bindE (case prog_it of
              None \<Rightarrow>
                bindE (build_executable dev filename) (\<lambda>executable.
                bindE (program_publish dev filename executable) (\<lambda>_.
                returnE executable))
            | Some executable \<Rightarrow> returnE executable) (\<lambda>executable.
     load_kernel_cached dev executable kernelname))"
  by (simp add: load_kernel_def load_kernel_cached_def)

lemma frame_ok_length: "frame_ok (\<lambda>s. length (devices s))"
  by (simp add: frame_ok_def update_device_def)

lemma cache_frame_nth:
  assumes "cache_frame s1 = cache_frame s" and "dev < length (devices s)"
  shows "dev < length (devices s1) \<and> programs (devices s1 ! dev) = programs (devices s ! dev)
       \<and> files s1 = files s \<and> symbol_info s1 = symbol_info s"
proof -
  have m: "map programs (devices s1) = map programs (devices s)"
    using assms(1) by (simp add: cache_frame_def)
  have len: "length (devices s1) = length (devices s)" using m by (metis length_map)
  have "programs (devices s1 ! dev) = programs (devices s ! dev)"
    using m len assms(2) by (metis nth_map)
  then show ?thesis using len assms by (simp add: cache_frame_def)
qed

lemma load_kernel_cached_unlocks:
  assumes "load_kernel_cached dev executable kernelname s = (Inr t, s')"
    and "dev < length (devices s)"
  shows "\<not> locked (devices s' ! dev)"
proof -
  let ?resolve = "\<lambda>kernel_it. case kernel_it of
              None \<Rightarrow>
                bindE (kernel_resolve dev executable kernelname) (\<lambda>t.
                bindE (kernel_publish dev executable kernelname t) (\<lambda>_.
                returnE t))
            | Some t \<Rightarrow> returnE t"
  from assms(1) obtain kernel_it s1 where
    kl: "kernel_lookup dev executable kernelname s = (Inr kernel_it, s1)"
    and rest: "bindE (?resolve kernel_it) (\<lambda>t. bindE (unlock dev) (\<lambda>_. returnE t)) s1 = (Inr t, s')"
    unfolding load_kernel_cached_def by (auto simp: bindE_Inr)
  from rest obtain t' sd where
    c: "?resolve kernel_it s1 = (Inr t', sd)"
    and u: "bindE (unlock dev) (\<lambda>_. returnE t') sd = (Inr t, s')"
    by (auto simp: bindE_Inr)
  have s': "s' = update_device dev (\<lambda>d. d\<lparr> locked := False \<rparr>) sd"
    using u by (simp add: bindE_def unlock_def returnE_def)
  have "length (devices s1) = length (devices s)"
    using preservesD[OF preserves_kernel_lookup[OF frame_ok_length], of dev executable kernelname s] kl
    by simp
  moreover have "preserves (\<lambda>s. length (devices s)) (?resolve kernel_it)"
    by (intro preserves_bindE preserves_case_option preserves_returnE
          preserves_kernel_publish preserves_kernel_resolve frame_ok_length)
  then have "length (devices sd) = length (devices s1)"
    using preservesD[of "\<lambda>s. length (devices s)" "?resolve kernel_it" s1] c by simp
  ultimately show ?thesis using s' assms(2) by (simp add: update_device_def)
qed

lemma program_lookup_eq:
  "program_lookup dev filename s =
     (if dev < length (devices s)
      then if locked (devices s ! dev) then (Inl Blocked, s)
           else (case programs (devices s ! dev) filename of
                   None \<Rightarrow> (Inr None, update_device dev (\<lambda>d. d\<lparr> locked := False \<rparr>)
                                       (update_device dev (\<lambda>d. d\<lparr> locked := True \<rparr>) s))
                 | Some e \<Rightarrow> (Inr (Some e), update_device dev (\<lambda>d. d\<lparr> locked := True \<rparr>) s))
      else (Inl OutOfBounds, s))"
  by (simp add: program_lookup_def bindE_def get_device_def lock_def unlock_def returnE_def
        update_device_def split: option.splits)

lemma program_publish_eq:
  "program_publish dev filename e s =
     (if locked (devices s ! dev) then (Inl Blocked, s)
      else (Inr (), update_device dev (\<lambda>d. d\<lparr> programs := (programs d)(filename \<mapsto> e) \<rparr>)
                      (update_device dev (\<lambda>d. d\<lparr> locked := True \<rparr>) s)))"
  by (simp add: program_publish_def bindE_def lock_def returnE_def)

lemma load_kernel_Inr_cached:
  assumes "load_kernel dev filename kernelname s = (Inr t, s')"
  shows "dev < length (devices s') \<and> \<not> locked (devices s' ! dev)
       \<and> programs (devices s' ! dev) filename \<noteq> None"
proof -
  from assms obtain prog_it sa e sc where
    pl: "program_lookup dev filename s = (Inr prog_it, sa)"
    and ch: "(case prog_it of
              None \<Rightarrow>
                bindE (build_executable dev filename) (\<lambda>executable.
                bindE (program_publish dev filename executable) (\<lambda>_.
                returnE executable))
            | Some executable \<Rightarrow> returnE executable) sa = (Inr e, sc)"
    and kc: "load_kernel_cached dev e kernelname sc = (Inr t, s')"
    unfolding load_kernel_eq bindE_Inr by blast
  have la: "dev < length (devices sa)"
    using pl unfolding program_lookup_eq
    by (auto simp: update_device_def split: if_splits option.splits)
  have pc: "dev < length (devices sc) \<and> programs (devices sc ! dev) filename = Some e"
  proof (cases prog_it)
    case None
    with ch have "bindE (build_executable dev filename) (\<lambda>executable.
                bindE (program_publish dev filename executable) (\<lambda>_.
                returnE executable)) sa = (Inr e, sc)" by simp
    then obtain x sb where bx: "build_executable dev filename sa = (Inr x, sb)"
      and r: "bindE (program_publish dev filename x) (\<lambda>_. returnE x) sb = (Inr e, sc)"
      unfolding bindE_Inr by blast
    from r obtain u sb' where px: "program_publish dev filename x sb = (Inr u, sb')"
      and "returnE x sb' = (Inr e, sc)"
      unfolding bindE_Inr by blast
    then have "x = e" "sb' = sc" by (simp_all add: returnE_def)
    with bx px have b: "build_executable dev filename sa = (Inr e, sb)"
      and p: "program_publish dev filename e sb = (Inr (), sc)" by simp_all
    have "length (devices sb) = length (devices sa)"
      using preservesD[OF preserves_build_executable[OF frame_ok_length], of dev filename sa] b
      by simp
    then show ?thesis
      using p la unfolding program_publish_eq
      by (auto simp: update_device_def split: if_splits)
  next
    case (Some e')
    with ch have "e' = e" "sc = sa" by (simp_all add: returnE_def)
    moreover have "programs (devices sa ! dev) filename = Some e'"
      using pl Some unfolding program_lookup_eq
      by (auto simp: update_device_def split: if_splits option.splits)
    ultimately show ?thesis using la by simp
  qed
  have "cache_frame s' = cache_frame sc"
    using preservesD[OF preserves_load_kernel_cached[OF frame_ok_cache_frame], of dev e kernelname sc] kc
    by simp
  from cache_frame_nth[OF this] pc load_kernel_cached_unlocks[OF kc] show ?thesis by simp
qed

lemma kernel_lookup_result:
  assumes "kernel_lookup dev executable kernelname s = (Inr kernel_it, s')" and "dev < length (devices s)"
  shows "kernel_it = kernel_map_of (devices s ! dev) executable kernelname"
  using assms
  by (auto simp: kernel_lookup_def Let_def bindE_def unlock_def returnE_def update_device_def
        kernel_map_of_def split: option.splits)

lemma kernel_resolve_result:
  assumes "kernel_resolve dev executable kernelname s = (Inr t, s')"
  shows "t = symbol_info s executable kernelname"
  using assms unfolding kernel_resolve_def
  by (auto simp: bindE_def get_device_def CHECK_HSA_eq returnE_def split: if_splits)

lemma load_kernel_cached_result:
  assumes "load_kernel_cached dev executable kernelname s = (Inr t, s')" and "dev < length (devices s)"
  shows "t = (case kernel_map_of (devices s ! dev) executable kernelname of
                Some c \<Rightarrow> c | None \<Rightarrow> symbol_info s executable kernelname)"
proof -
  let ?resolve = "\<lambda>kernel_it. case kernel_it of
              None \<Rightarrow>
                bindE (kernel_resolve dev executable kernelname) (\<lambda>t.
                bindE (kernel_publish dev executable kernelname t) (\<lambda>_.
                returnE t))
            | Some t \<Rightarrow> returnE t"
  from assms(1) obtain kernel_it s1 where
    kl: "kernel_lookup dev executable kernelname s = (Inr kernel_it, s1)"
    and rest: "bindE (?resolve kernel_it) (\<lambda>t. bindE (unlock dev) (\<lambda>_. returnE t)) s1 = (Inr t, s')"
    unfolding load_kernel_cached_def bindE_Inr by blast
  from rest obtain t' sd where
    c: "?resolve kernel_it s1 = (Inr t', sd)"
    and u: "bindE (unlock dev) (\<lambda>_. returnE t') sd = (Inr t, s')"
    unfolding bindE_Inr by blast
  have tt: "t' = t" using u by (simp add: bindE_def unlock_def returnE_def)
  have ki: "kernel_it = kernel_map_of (devices s ! dev) executable kernelname"
    by (rule kernel_lookup_result[OF kl assms(2)])
  have sy: "symbol_info s1 = symbol_info s"
    using preservesD[OF preserves_kernel_lookup[OF frame_ok_cache_frame], of dev executable kernelname s] kl
    by (simp add: cache_frame_def)
  show ?thesis
  proof (cases kernel_it)
    case None
    with c have "bindE (kernel_resolve dev executable kernelname) (\<lambda>t.
                bindE (kernel_publish dev executable kernelname t) (\<lambda>_.
                returnE t)) s1 = (Inr t', sd)" by simp
    then obtain x s2 where r: "kernel_resolve dev executable kernelname s1 = (Inr x, s2)"
      and p: "bindE (kernel_publish dev executable kernelname x) (\<lambda>_. returnE x) s2 = (Inr t', sd)"
      unfolding bindE_Inr by blast
    from p obtain u' s3 where "returnE x s3 = (Inr t', sd)" unfolding bindE_Inr by blast
    then have "x = t'" by (simp add: returnE_def)
    moreover have "kernel_map_of (devices s ! dev) executable kernelname = None"
      using ki None by simp
    ultimately show ?thesis using kernel_resolve_result[OF r] sy tt by simp
  next
    case (Some c')
    with c have "t' = c'" by (simp add: returnE_def)
    moreover have "kernel_map_of (devices s ! dev) executable kernelname = Some c'"
      using ki Some by simp
    ultimately show ?thesis using tt by simp
  qed
qed

lemma emits_launch_kernel_at:
  assumes "\<exists>evs. trace (snd (load_kernel dev filename kernelname s)) = trace s @ evs
             \<and> list_all (\<lambda>c. \<not> is_pipeline_call c) evs"
  shows "\<exists>evs. trace (snd (launch_kernel dev filename kernelname grid block args s)) = trace s @ evs
             \<and> list_all (\<lambda>c. \<not> is_pipeline_call c) evs"
proof (cases "dev < length (devices s) \<and> queue (devices s ! dev) \<noteq> None")
  case True
  then have "launch_kernel dev filename kernelname grid block args s =
      bindE (load_kernel dev filename kernelname) (submit_kernel dev grid block args) s"
    by (auto simp: launch_kernel_eq bindE_def get_device_def)
  moreover have sub: "\<And>t. emits (\<lambda>c. \<not> is_pipeline_call c) (submit_kernel dev grid block args t)"
    by (rule emits_mono[OF emits_submit_kernel]) (erule submit_call_not_pipeline)
  ultimately show ?thesis
    using emits_at_bindE[of "load_kernel dev filename kernelname" s
        "\<lambda>c. \<not> is_pipeline_call c" "submit_kernel dev grid block args", OF assms sub]
    by simp
next
  case False
  then have "trace (snd (launch_kernel dev filename kernelname grid block args s)) = trace s"
    by (auto simp: launch_kernel_eq bindE_def get_device_def failE_def)
  then show ?thesis by simp
qed

lemma kernel_resolve_outcome:
  assumes "dev < length (devices s)"
  shows "devices (snd (kernel_resolve dev e k s)) = devices s \<and>
     ((\<exists>t. fst (kernel_resolve dev e k s) = Inr t)
      \<or> (\<exists>name st. fst (kernel_resolve dev e k s) = Inl (HSA_API_Error name st)))"
  using assms unfolding kernel_resolve_def
  by (simp add: bindE_def get_device_def CHECK_HSA_eq returnE_def del: split_paired_Ex)

lemma load_kernel_cached_hit:
  assumes "dev < length (devices s)"
    and "kernel_map_of (devices s ! dev) e k = Some t"
  shows "load_kernel_cached dev e k s =
     (Inr t, update_device dev (\<lambda>d. d\<lparr> locked := False \<rparr>)
        (update_device dev (\<lambda>d. d\<lparr> kernels := (kernels d)(e \<mapsto> kernel_map_of d e) \<rparr>) s))"
  using assms
  by (simp add: load_kernel_cached_def kernel_lookup_def Let_def bindE_def returnE_def unlock_def
        update_device_def kernel_map_of_def)

lemma load_kernel_cached_outcome:
  assumes "dev < length (devices s)"
  shows "(\<exists>t s'. load_kernel_cached dev e k s = (Inr t, s')
            \<and> dev < length (devices s') \<and> \<not> locked (devices s' ! dev)
            \<and> (\<exists>m. kernels (devices s' ! dev) e = Some m \<and> m k = Some t))
       \<or> (\<exists>name st s'. load_kernel_cached dev e k s = (Inl (HSA_API_Error name st), s'))"
proof (cases "kernel_map_of (devices s ! dev) e k")
  case (Some t)
  from load_kernel_cached_hit[OF assms Some] assms Some show ?thesis
    by (auto simp: update_device_def kernel_map_of_def simp del: split_paired_Ex split: option.splits)
next
  case None
  let ?s1 = "update_device dev (\<lambda>d. d\<lparr> locked := False \<rparr>)
        (update_device dev (\<lambda>d. d\<lparr> kernels := (kernels d)(e \<mapsto> kernel_map_of d e) \<rparr>) s)"
  have kl: "kernel_lookup dev e k s = (Inr None, ?s1)"
    using assms None
    by (simp add: kernel_lookup_def Let_def bindE_def returnE_def unlock_def
        update_device_def kernel_map_of_def)
  have l1: "dev < length (devices ?s1)" using assms by (simp add: update_device_def)
  have d1: "\<not> locked (devices ?s1 ! dev)" "kernel_map_of (devices ?s1 ! dev) e k = None"
    using assms None by (simp_all add: update_device_def kernel_map_of_def)
  obtain x s2 where r: "kernel_resolve dev e k ?s1 = (x, s2)" by (cases "kernel_resolve dev e k ?s1")
  with kernel_resolve_outcome[OF l1, of e k] have ds: "devices s2 = devices ?s1"
    and x: "(\<exists>t. x = Inr t) \<or> (\<exists>name st. x = Inl (HSA_API_Error name st))" by simp_all
  from x show ?thesis
  proof
    assume "\<exists>t. x = Inr t"
    then obtain t where t: "x = Inr t" by blast
    have "load_kernel_cached dev e k s =
        (Inr t, update_device dev (\<lambda>d. d\<lparr> locked := False \<rparr>)
           (update_device dev (\<lambda>d. d\<lparr> kernels := (kernels d)(e \<mapsto> emplace (kernel_map_of d e) k t) \<rparr>)
              (update_device dev (\<lambda>d. d\<lparr> locked := True \<rparr>) s2)))"
      using kl r t ds d1 l1
      by (simp add: load_kernel_cached_def bindE_def kernel_publish_def lock_def unlock_def returnE_def)
    then show ?thesis using ds d1 l1
      by (auto simp: update_device_def kernel_map_of_def emplace_def simp del: split_paired_Ex
            split: option.splits)
  next
    assume "\<exists>name st. x = Inl (HSA_API_Error name st)"
    then obtain name st where "x = Inl (HSA_API_Error name st)" by blast
    then have "load_kernel_cached dev e k s = (Inl (HSA_API_Error name st), s2)"
      using kl r by (simp add: load_kernel_cached_def bindE_def)
    then show ?thesis by blast
  qed
qed

lemma load_kernel_Inr_kernel_cached:
  assumes "load_kernel dev filename kernelname s = (Inr t, s')"
  shows "\<exists>e m. dev < length (devices s') \<and> \<not> locked (devices s' ! dev)
       \<and> programs (devices s' ! dev) filename = Some e
       \<and> kernels (devices s' ! dev) e = Some m \<and> m kernelname = Some t"
proof -
  from assms obtain prog_it sa e sc where
    pl: "program_lookup dev filename s = (Inr prog_it, sa)"
    and ch: "(case prog_it of
              None \<Rightarrow>
                bindE (build_executable dev filename) (\<lambda>executable.
                bindE (program_publish dev filename executable) (\<lambda>_.
                returnE executable))
            | Some executable \<Rightarrow> returnE executable) sa = (Inr e, sc)"
    and kc: "load_kernel_cached dev e kernelname sc = (Inr t, s')"
    unfolding load_kernel_eq bindE_Inr by blast
  have la: "dev < length (devices sa)"
    using pl unfolding program_lookup_eq
    by (auto simp: update_device_def split: if_splits option.splits)
  have pc: "dev < length (devices sc) \<and> programs (devices sc ! dev) filename = Some e"
  proof (cases prog_it)
    case None
    with ch have "bindE (build_executable dev filename) (\<lambda>executable.
                bindE (program_publish dev filename executable) (\<lambda>_.
                returnE executable)) sa = (Inr e, sc)" by simp
    then obtain x sb where bx: "build_executable dev filename sa = (Inr x, sb)"
      and r: "bindE (program_publish dev filename x) (\<lambda>_. returnE x) sb = (Inr e, sc)"
      unfolding bindE_Inr by blast
    from r obtain u sb' where px: "program_publish dev filename x sb = (Inr u, sb')"
      and "returnE x sb' = (Inr e, sc)"
      unfolding bindE_Inr by blast
    then have "x = e" "sb' = sc" by (simp_all add: returnE_def)
    with bx px have b: "build_executable dev filename sa = (Inr e, sb)"
      and p: "program_publish dev filename e sb = (Inr (), sc)" by simp_all
    have "length (devices sb) = length (devices sa)"
      using preservesD[OF preserves_build_executable[OF frame_ok_length], of dev filename sa] b
      by simp
    then show ?thesis
      using p la unfolding program_publish_eq
      by (auto simp: update_device_def split: if_splits)
  next
    case (Some e')
    with ch have "e' = e" "sc = sa" by (simp_all add: returnE_def)
    moreover have "programs (devices sa ! dev) filename = Some e'"
      using pl Some unfolding program_lookup_eq
      by (auto simp: update_device_def split: if_splits option.splits)
    ultimately show ?thesis using la by simp
  qed
  have "cache_frame s' = cache_frame sc"
    using preservesD[OF preserves_load_kernel_cached[OF frame_ok_cache_frame], of dev e kernelname sc] kc
    by simp
  from cache_frame_nth[OF this] pc have p': "programs (devices s' ! dev) filename = Some e"
    and l': "dev < length (devices s')" by simp_all
  from load_kernel_cached_outcome[of dev sc e kernelname] pc kc
  have "\<not> locked (devices s' ! dev) \<and> (\<exists>m. kernels (devices s' ! dev) e = Some m \<and> m kernelname = Some t)"
    by auto
  with p' l' show ?thesis by blast
qed

lemma load_kernel_again:
  assumes "dev < length (devices s)" and "\<not> locked (devices s ! dev)"
    and "programs (devices s ! dev) filename = Some e"
    and "kernels (devices s ! dev) e = Some m" and "m kernelname = Some t"
  shows "load_kernel dev filename kernelname s = (Inr t, s)"
proof -
  let ?s2 = "update_device dev (\<lambda>d. d\<lparr> locked := True \<rparr>) s"
  have hit: "load_kernel dev filename kernelname s = load_kernel_cached dev e kernelname ?s2"
    using assms by (intro load_kernel_hit) simp_all
  have l2: "dev < length (devices ?s2)" using assms by (simp add: update_device_def)
  have k2: "kernel_map_of (devices ?s2 ! dev) e kernelname = Some t"
    using assms by (simp add: update_device_def kernel_map_of_def)
  have "(devices s)[dev := (devices s ! dev)\<lparr> kernels := (kernels (devices s ! dev))(e \<mapsto> m),
          locked := False \<rparr>] = devices s"
  proof -
    have "(kernels (devices s ! dev))(e \<mapsto> m) = kernels (devices s ! dev)"
      using assms(4) by (simp add: fun_upd_idem)
    moreover have "(devices s ! dev)\<lparr> locked := False \<rparr> = devices s ! dev"
      using assms(2) by simp
    ultimately show ?thesis by (simp add: list_update_id)
  qed
  then have "update_device dev (\<lambda>d. d\<lparr> locked := False \<rparr>)
        (update_device dev (\<lambda>d. d\<lparr> kernels := (kernels d)(e \<mapsto> kernel_map_of d e) \<rparr>) ?s2) = s"
    using assms by (simp add: update_device_def kernel_map_of_def)
  with load_kernel_cached_hit[OF l2 k2] hit show ?thesis by simp
qed


text \<open>
  Claim C4.  The program cache is keyed by the file name alone.  Once a \<^verbatim>\<open>load_kernel\<close>
  for a file name has returned, the name has an executable in the cache; if other source
  text is then registered under the same name, the next \<^verbatim>\<open>load_kernel\<close> for it makes no
  call of the compile-and-load pipeline (only symbol queries, and none when the kernel
  is cached too), leaves the cached executable as it was, returns the kernel of that
  executable, and never reads the new text; and the whole \<^verbatim>\<open>launch_kernel\<close> makes no
  pipeline call either.  The next call does return: for the kernel loaded before it
  returns the same kernel and changes nothing at all; for any kernel it either returns,
  with the lock released and its kernel cached for the call after it, or ends in the
  error of a failed symbol query, never waiting for the lock.  A launch of the kernel
  loaded before is then just the submission of the cached kernel.
\<close>

theorem load_kernel_reuses_cached_executable:
  assumes "load_kernel dev filename kernelname0 s0 = (Inr t0, s)"
  shows "\<exists>executable. programs (devices s ! dev) filename = Some executable
     \<and> (\<exists>evs. trace (snd (load_kernel dev filename kernelname (register_file filename text s)))
                 = trace s @ evs \<and> list_all is_symbol_call evs)
     \<and> programs (devices (snd (load_kernel dev filename kernelname (register_file filename text s))) ! dev)
          filename = Some executable
     \<and> files (snd (load_kernel dev filename kernelname (register_file filename text s))) filename
          = Some text
     \<and> (\<forall>t. fst (load_kernel dev filename kernelname (register_file filename text s)) = Inr t \<longrightarrow>
            t = (case kernel_map_of (devices s ! dev) executable kernelname of
                   Some c \<Rightarrow> c | None \<Rightarrow> symbol_info s executable kernelname))
     \<and> (\<exists>evs. trace (snd (launch_kernel dev filename kernelname grid block args
                              (register_file filename text s))) = trace s @ evs
             \<and> list_all (\<lambda>c. \<not> is_pipeline_call c) evs)
     \<and> load_kernel dev filename kernelname0 (register_file filename text s)
          = (Inr t0, register_file filename text s)
     \<and> ((\<exists>t s'. load_kernel dev filename kernelname (register_file filename text s) = (Inr t, s')
              \<and> \<not> locked (devices s' ! dev)
              \<and> load_kernel dev filename kernelname s' = (Inr t, s'))
        \<or> (\<exists>name status. fst (load_kernel dev filename kernelname (register_file filename text s))
              = Inl (HSA_API_Error name status)))
     \<and> (queue (devices s ! dev) \<noteq> None \<longrightarrow>
          launch_kernel dev filename kernelname0 grid block args (register_file filename text s)
            = submit_kernel dev grid block args t0 (register_file filename text s))"
proof -
  from load_kernel_Inr_kernel_cached[OF assms] obtain executable m where
    dev: "dev < length (devices s)" and ul: "\<not> locked (devices s ! dev)"
    and pr: "programs (devices s ! dev) filename = Some executable"
    and km: "kernels (devices s ! dev) executable = Some m" "m kernelname0 = Some t0" by blast
  let ?s1 = "register_file filename text s"
  let ?s2 = "update_device dev (\<lambda>d. d\<lparr> locked := True \<rparr>) ?s1"
  let ?r = "load_kernel dev filename kernelname ?s1"
  have s1: "devices ?s1 = devices s" "trace ?s1 = trace s" "files ?s1 filename = Some text"
    "symbol_info ?s1 = symbol_info s"
    by (simp_all add: register_file_def)
  have hit: "?r = load_kernel_cached dev executable kernelname ?s2"
    using dev ul pr s1 by (intro load_kernel_hit) simp_all
  have s2: "dev < length (devices ?s2)" "trace ?s2 = trace s" "files ?s2 filename = Some text"
    "programs (devices ?s2 ! dev) filename = Some executable" "symbol_info ?s2 = symbol_info s"
    "kernel_map_of (devices ?s2 ! dev) executable kernelname
       = kernel_map_of (devices s ! dev) executable kernelname"
    using dev pr s1 by (simp_all add: update_device_def kernel_map_of_def)
  have a: "\<exists>evs. trace (snd ?r) = trace s @ evs \<and> list_all is_symbol_call evs"
    using emitsD[OF emits_load_kernel_cached, of dev executable kernelname ?s2] hit s2 by simp
  have cf: "cache_frame (snd ?r) = cache_frame ?s2"
    using preservesD[OF preserves_load_kernel_cached[OF frame_ok_cache_frame], of dev executable kernelname ?s2] hit
    by simp
  have b: "programs (devices (snd ?r) ! dev) filename = Some executable"
     and c: "files (snd ?r) filename = Some text"
    using cache_frame_nth[OF cf s2(1)] s2 by simp_all
  have d: "\<forall>t. fst ?r = Inr t \<longrightarrow>
            t = (case kernel_map_of (devices s ! dev) executable kernelname of
                   Some c \<Rightarrow> c | None \<Rightarrow> symbol_info s executable kernelname)"
  proof (intro allI impI)
    fix t assume "fst ?r = Inr t"
    then have "load_kernel_cached dev executable kernelname ?s2 = (Inr t, snd ?r)"
      using hit by (metis prod.collapse)
    from load_kernel_cached_result[OF this s2(1)] s2 show
      "t = (case kernel_map_of (devices s ! dev) executable kernelname of
                   Some c \<Rightarrow> c | None \<Rightarrow> symbol_info s executable kernelname)"
      by (simp split: option.splits)
  qed
  from a obtain evs where evs: "trace (snd ?r) = trace ?s1 @ evs" "list_all is_symbol_call evs"
    using s1 by auto
  have "list_all (\<lambda>c. \<not> is_pipeline_call c) evs"
    using evs(2) symbol_call_not_pipeline by (auto simp: list_all_iff)
  with evs have "\<exists>evs. trace (snd ?r) = trace ?s1 @ evs \<and> list_all (\<lambda>c. \<not> is_pipeline_call c) evs"
    by blast
  from emits_launch_kernel_at[OF this] s1 have e:
    "\<exists>evs. trace (snd (launch_kernel dev filename kernelname grid block args ?s1)) = trace s @ evs
             \<and> list_all (\<lambda>c. \<not> is_pipeline_call c) evs" by simp
  have f: "load_kernel dev filename kernelname0 ?s1 = (Inr t0, ?s1)"
    using dev ul pr km s1 by (intro load_kernel_again[where e = executable and m = m]) simp_all
  have g: "(\<exists>t s'. ?r = (Inr t, s') \<and> \<not> locked (devices s' ! dev)
              \<and> load_kernel dev filename kernelname s' = (Inr t, s'))
        \<or> (\<exists>name status. fst ?r = Inl (HSA_API_Error name status))"
    using load_kernel_cached_outcome[OF s2(1), of executable kernelname]
  proof
    assume "\<exists>t s'. load_kernel_cached dev executable kernelname ?s2 = (Inr t, s')
            \<and> dev < length (devices s') \<and> \<not> locked (devices s' ! dev)
            \<and> (\<exists>m. kernels (devices s' ! dev) executable = Some m \<and> m kernelname = Some t)"
    then obtain t s' m' where r: "?r = (Inr t, s')" and l: "dev < length (devices s')"
      and u: "\<not> locked (devices s' ! dev)"
      and k: "kernels (devices s' ! dev) executable = Some m'" "m' kernelname = Some t"
      using hit by auto
    have "programs (devices s' ! dev) filename = Some executable" using b r by simp
    from load_kernel_again[OF l u this k] r u show ?thesis by blast
  next
    assume "\<exists>name st s'. load_kernel_cached dev executable kernelname ?s2 = (Inl (HSA_API_Error name st), s')"
    then show ?thesis using hit by auto
  qed
  have h: "queue (devices s ! dev) \<noteq> None \<longrightarrow>
          launch_kernel dev filename kernelname0 grid block args ?s1
            = submit_kernel dev grid block args t0 ?s1"
    using f dev s1 by (simp add: launch_kernel_eq bindE_def get_device_def)
  show ?thesis using pr a b c d e f g h by blast
qed

lemma load_world2:
  "fst (load_kernel 0 ''k.gcn'' ''main'' world2) = Inr (4096, 40, 0, 0)
   \<and> trace (snd (load_kernel 0 ''k.gcn'' ''main'' world2)) =
       [Hsa_code_object_reader_create_from_memory ''first'',
        Hsa_executable_create_alt HSA_PROFILE_FULL HSA_DEFAULT_FLOAT_ROUNDING_MODE_NEAR,
        Hsa_executable_load_agent_code_object 2 1 1,
        Hsa_executable_freeze 2, Hsa_code_object_reader_destroy 1, Hsa_executable_validate 2,
        Hsa_executable_get_symbol_by_name 2 ''main'' 1,
        Hsa_executable_symbol_get_info 7 HSA_EXECUTABLE_SYMBOL_INFO_KERNEL_OBJECT,
        Hsa_executable_symbol_get_info 7 HSA_EXECUTABLE_SYMBOL_INFO_KERNEL_KERNARG_SEGMENT_SIZE,
        Hsa_executable_symbol_get_info 7 HSA_EXECUTABLE_SYMBOL_INFO_KERNEL_GROUP_SEGMENT_SIZE,
        Hsa_executable_symbol_get_info 7 HSA_EXECUTABLE_SYMBOL_INFO_KERNEL_PRIVATE_SEGMENT_SIZE]
   \<and> programs (devices (snd (load_kernel 0 ''k.gcn'' ''main'' world2)) ! 0) ''k.gcn'' = Some 2"
  by (simp add: load_kernel_def program_lookup_def build_executable_def program_publish_def
        kernel_lookup_def kernel_resolve_def kernel_publish_def kernel_map_of_def emplace_def
        file_extension_def substr_after_last_def load_file_def
        bindE_def returnE_def failE_def get_device_def lock_def unlock_def
        update_device_def CHECK_HSA_eq Let_def world2_def world0_def device0_def)

lemma relaunch_world2:
  "fst (launch_kernel 0 ''k.gcn'' ''main'' (64, 1, 1) (16, 1, 1) example_args
         (register_file ''k.gcn'' ''second'' (snd (load_kernel 0 ''k.gcn'' ''main'' world2)))) = Inr ()
   \<and> trace (snd (launch_kernel 0 ''k.gcn'' ''main'' (64, 1, 1) (16, 1, 1) example_args
         (register_file ''k.gcn'' ''second'' (snd (load_kernel 0 ''k.gcn'' ''main'' world2)))))
      = trace (snd (load_kernel 0 ''k.gcn'' ''main'' world2))
        @ [Hsa_memory_allocate 3 40, Hsa_signal_add_relaxed 11 1,
           Hsa_queue_load_write_index_relaxed 10,
           Queue_write 10 1 (aql_packet (64, 1, 1) (16, 1, 1) (4096, 40, 0, 0) 12 11),
           Hsa_queue_store_write_index_relaxed 10 6, Hsa_signal_store_relaxed 10 5]"
  by (simp add: launch_defs build_executable_def program_publish_def
        kernel_resolve_def kernel_publish_def emplace_def register_file_def
        file_extension_def substr_after_last_def load_file_def aql_packet_def
        world2_def world0_def device0_def example_args_def pack_init_def align_address_def)

theorem load_kernel_reuses_cached_executable_witness:
  "fst (load_kernel 0 ''k.gcn'' ''main'' world2) = Inr (4096, 40, 0, 0)
   \<and> programs (devices (snd (load_kernel 0 ''k.gcn'' ''main'' world2)) ! 0) ''k.gcn'' = Some 2
   \<and> programs (devices (snd (load_kernel 0 ''k.gcn'' ''main''
         (register_file ''k.gcn'' ''second'' (snd (load_kernel 0 ''k.gcn'' ''main'' world2))))) ! 0)
         ''k.gcn'' = Some 2
   \<and> load_kernel 0 ''k.gcn'' ''main''
         (register_file ''k.gcn'' ''second'' (snd (load_kernel 0 ''k.gcn'' ''main'' world2)))
       = (Inr (4096, 40, 0, 0),
          register_file ''k.gcn'' ''second'' (snd (load_kernel 0 ''k.gcn'' ''main'' world2)))
   \<and> files (register_file ''k.gcn'' ''second'' (snd (load_kernel 0 ''k.gcn'' ''main'' world2)))
         ''k.gcn'' = Some ''second''
   \<and> fst (launch_kernel 0 ''k.gcn'' ''main'' (64, 1, 1) (16, 1, 1) example_args
         (register_file ''k.gcn'' ''second'' (snd (load_kernel 0 ''k.gcn'' ''main'' world2)))) = Inr ()
   \<and> trace (snd (launch_kernel 0 ''k.gcn'' ''main'' (64, 1, 1) (16, 1, 1) example_args
         (register_file ''k.gcn'' ''second'' (snd (load_kernel 0 ''k.gcn'' ''main'' world2)))))
      = trace (snd (load_kernel 0 ''k.gcn'' ''main'' world2))
        @ [Hsa_memory_allocate 3 40, Hsa_signal_add_relaxed 11 1,
           Hsa_queue_load_write_index_relaxed 10,
           Queue_write 10 1 (aql_packet (64, 1, 1) (16, 1, 1) (4096, 40, 0, 0) 12 11),
           Hsa_queue_store_write_index_relaxed 10 6, Hsa_signal_store_relaxed 10 5]"
proof -
  let ?r = "load_kernel 0 ''k.gcn'' ''main'' world2"
  have h: "?r = (Inr (4096, 40, 0, 0), snd ?r)" using load_world2 by (metis prod.collapse)
  note th = load_kernel_reuses_cached_executable[OF h, of "''main''" "''second''" "(64, 1, 1)" "(16, 1, 1)" example_args]
  from th load_world2 have a:
    "programs (devices (snd (load_kernel 0 ''k.gcn'' ''main'' (register_file ''k.gcn'' ''second'' (snd ?r)))) ! 0)
         ''k.gcn'' = Some 2" by auto
  from th have b: "load_kernel 0 ''k.gcn'' ''main'' (register_file ''k.gcn'' ''second'' (snd ?r))
       = (Inr (4096, 40, 0, 0), register_file ''k.gcn'' ''second'' (snd ?r))" by blast
  have c: "files (register_file ''k.gcn'' ''second'' (snd ?r)) ''k.gcn'' = Some ''second''"
    by (simp add: register_file_def)
  show ?thesis using load_world2 a b c relaunch_world2 by simp
qed

section \<open>Device discovery\<close>

lemma bindE_assoc: "bindE (bindE m f) g = bindE m (\<lambda>x. bindE (f x) g)"
  by (rule ext) (simp add: bindE_def split: prod.splits sum.splits)

lemma bindE_returnE: "bindE (returnE x) f = f x"
  by (rule ext) (simp add: bindE_def returnE_def)

lemma iterate_agents_callback_eq:
  "iterate_agents_callback a =
     bindE (query_agent a) (\<lambda>isa_name.
     bindE (create_device a isa_name) (\<lambda>dev. discover_regions a dev))"
  unfolding iterate_agents_callback_def query_agent_def create_device_def discover_regions_def Let_def
  by (simp add: bindE_assoc bindE_returnE split_def)

lemma query_agent_Inr:
  assumes "query_agent a s = (Inr n, s')"
  shows "s' = s\<lparr> trace := trace s @ query_calls a \<rparr>"
  using assms unfolding query_agent_def query_calls_def
  by (auto simp: bindE_def CHECK_HSA_eq call_unchecked_eq returnE_def Let_def split: if_splits)

lemma create_device_Inr:
  assumes "create_device a isa_name s = (Inr dev, s')"
  shows "dev = length (devices s)
       \<and> (\<exists>d. devices s' = devices s @ [d] \<and> agent d = agent_handle a
            \<and> (if 0 < agent_queue_max_size a
                then queue d = Some \<lparr> queue_handle = Suc (length (trace s)),
                                      q_size = agent_queue_max_size a, base_address = (\<lambda>_. None),
                                      doorbell_signal = Suc (length (trace s)), write_index = 0 \<rparr>
                   \<and> signal d = Suc (Suc (Suc (length (trace s))))
                   \<and> trace s' = trace s @ [Hsa_queue_create (agent_handle a) (agent_queue_max_size a),
                        Hsa_amd_profiling_set_profiler_enabled (Suc (length (trace s))),
                        Hsa_signal_create 0]
                else queue d = None \<and> signal d = Suc (length (trace s))
                   \<and> trace s' = trace s @ [Hsa_signal_create 0]))"
  using assms unfolding create_device_def hsa_signal_create_def
  by (auto simp: bindE_def CHECK_HSA_eq returnE_def Let_def split: if_splits)

lemma device_summary_update_device:
  assumes "\<And>d. agent (f d) = agent d" and "\<And>d. queue (f d) = queue d"
    and "\<And>d. signal (f d) = signal d"
  shows "device_summary (update_device dev f s) = device_summary s"
  unfolding device_summary_def update_device_def
  by (simp add: map_update_same[where g="\<lambda>d. (agent d, queue d, signal d)"] assms)

lemma device_summary_trace [simp]: "device_summary (s\<lparr> trace := t \<rparr>) = device_summary s"
  by (simp add: device_summary_def)

lemma iterate_regions_callback_frame:
  "device_summary (snd (iterate_regions_callback r dev s)) = device_summary s
   \<and> (\<exists>evs. trace (snd (iterate_regions_callback r dev s)) = trace s @ evs
          \<and> list_all is_region_call evs)"
  unfolding iterate_regions_callback_def
  by (simp add: bindE_def CHECK_HSA_eq returnE_def Let_def device_summary_update_device
        is_region_call_def)

lemma iterate_regions_frame:
  "device_summary (snd (iterate_regions rs dev s)) = device_summary s
   \<and> (\<exists>evs. trace (snd (iterate_regions rs dev s)) = trace s @ evs \<and> list_all is_region_call evs)"
proof (induction rs arbitrary: s)
  case Nil
  then show ?case by simp
next
  case (Cons r rs)
  obtain x s1 where c: "iterate_regions_callback r dev s = (x, s1)"
    by (cases "iterate_regions_callback r dev s")
  from iterate_regions_callback_frame[of r dev s] c obtain evs1 where
    f1: "device_summary s1 = device_summary s" "trace s1 = trace s @ evs1" "list_all is_region_call evs1"
    by auto
  from Cons.IH[of s1] obtain evs2 where
    f2: "device_summary (snd (iterate_regions rs dev s1)) = device_summary s1"
        "trace (snd (iterate_regions rs dev s1)) = trace s1 @ evs2" "list_all is_region_call evs2"
    by auto
  show ?case
  proof (cases "x = Inr HSA_STATUS_SUCCESS")
    case True
    have "trace (snd (iterate_regions (r # rs) dev s)) = trace s @ (evs1 @ evs2)"
      using True c f1 f2 by simp
    moreover have "list_all is_region_call (evs1 @ evs2)" using f1 f2 by simp
    moreover have "device_summary (snd (iterate_regions (r # rs) dev s)) = device_summary s"
      using True c f1 f2 by simp
    ultimately show ?thesis by blast
  next
    case False
    then have "snd (iterate_regions (r # rs) dev s) = s1"
      using c by (cases x) auto
    then show ?thesis using f1 by auto
  qed
qed

lemma discover_regions_frame:
  "device_summary (snd (discover_regions a dev s)) = device_summary s
   \<and> (\<exists>evs. trace (snd (discover_regions a dev s)) = trace s @ evs
          \<and> list_all (\<lambda>c. \<not> is_queue_create c \<and> \<not> is_signal_create c) evs)"
proof -
  let ?s1 = "s\<lparr> trace := trace s @ [Hsa_agent_iterate_regions (agent_handle a)] \<rparr>"
  let ?P = "\<lambda>c. \<not> is_queue_create c \<and> \<not> is_signal_create c"
  have r: "\<And>c. is_region_call c \<Longrightarrow> ?P c"
    by (auto simp: is_region_call_def is_queue_create_def is_signal_create_def split: call.splits)
  show ?thesis
  proof (cases "status_of_call s (length (trace s)) = HSA_STATUS_SUCCESS")
    case True
    then have e: "snd (discover_regions a dev s) = snd (iterate_regions (agent_regions a) dev ?s1)"
      by (auto simp: discover_regions_def bindE_def call_unchecked_eq check_hsa_error_def returnE_def
          split: prod.splits sum.splits)
    from iterate_regions_frame[of "agent_regions a" dev ?s1] obtain evs where
      f: "device_summary (snd (iterate_regions (agent_regions a) dev ?s1)) = device_summary ?s1"
         "trace (snd (iterate_regions (agent_regions a) dev ?s1)) = trace ?s1 @ evs"
         "list_all is_region_call evs" by auto
    have "trace (snd (discover_regions a dev s)) = trace s @ (Hsa_agent_iterate_regions (agent_handle a) # evs)"
      using e f by simp
    moreover have "list_all ?P (Hsa_agent_iterate_regions (agent_handle a) # evs)"
      using f(3) r by (auto simp: list_all_iff is_queue_create_def is_signal_create_def)
    ultimately show ?thesis using e f(1) by (metis device_summary_trace)
  next
    case False
    then have e: "snd (discover_regions a dev s) = ?s1"
      by (auto simp: discover_regions_def bindE_def call_unchecked_eq check_hsa_error_def returnE_def)
    have "trace ?s1 = trace s @ [Hsa_agent_iterate_regions (agent_handle a)]" by simp
    moreover have "list_all ?P [Hsa_agent_iterate_regions (agent_handle a)]"
      by (simp add: is_queue_create_def is_signal_create_def)
    ultimately show ?thesis using e by (metis device_summary_trace)
  qed
qed

lemma device_ok_mono: "device_ok tr x \<Longrightarrow> device_ok (tr @ evs) x"
  by (auto simp: device_ok_def nth_append split: option.splits)

lemma callback_Inr:
  assumes "iterate_agents_callback a s = (Inr st, s')"
  shows "st = HSA_STATUS_SUCCESS \<and>
     (\<exists>q sg evs. device_summary s' = device_summary s @ [(agent_handle a, q, sg)]
        \<and> queue_size_of (agent_handle a, q, sg) = expected_queue a
        \<and> trace s' = trace s @ evs
        \<and> filter is_queue_create evs = queue_create_calls [a]
        \<and> filter is_signal_create evs = [Hsa_signal_create 0]
        \<and> device_ok (trace s') (agent_handle a, q, sg) \<and> length (trace s) < sg)"
proof -
  from assms obtain isa_name s1 where qa: "query_agent a s = (Inr isa_name, s1)"
    and r1: "bindE (create_device a isa_name) (\<lambda>dev. discover_regions a dev) s1 = (Inr st, s')"
    unfolding iterate_agents_callback_eq bindE_Inr by blast
  from r1 obtain dev s2 where cd: "create_device a isa_name s1 = (Inr dev, s2)"
    and dr: "discover_regions a dev s2 = (Inr st, s')"
    unfolding bindE_Inr by blast
  have st: "st = HSA_STATUS_SUCCESS"
    using dr by (auto simp: discover_regions_def bindE_Inr returnE_def split: prod.splits)
  have s1: "s1 = s\<lparr> trace := trace s @ query_calls a \<rparr>" by (rule query_agent_Inr[OF qa])
  from create_device_Inr[OF cd] obtain d where
    d: "devices s2 = devices s1 @ [d]" "agent d = agent_handle a"
    and c: "if 0 < agent_queue_max_size a
                then queue d = Some \<lparr> queue_handle = Suc (length (trace s1)),
                                      q_size = agent_queue_max_size a, base_address = (\<lambda>_. None),
                                      doorbell_signal = Suc (length (trace s1)), write_index = 0 \<rparr>
                   \<and> signal d = Suc (Suc (Suc (length (trace s1))))
                   \<and> trace s2 = trace s1 @ [Hsa_queue_create (agent_handle a) (agent_queue_max_size a),
                        Hsa_amd_profiling_set_profiler_enabled (Suc (length (trace s1))),
                        Hsa_signal_create 0]
                else queue d = None \<and> signal d = Suc (length (trace s1))
                   \<and> trace s2 = trace s1 @ [Hsa_signal_create 0]"
    by blast
  from discover_regions_frame[of a dev s2] dr obtain evs3 where
    f: "device_summary s' = device_summary s2" "trace s' = trace s2 @ evs3"
       "list_all (\<lambda>c. \<not> is_queue_create c \<and> \<not> is_signal_create c) evs3" by auto
  have f3: "filter is_queue_create evs3 = []" "filter is_signal_create evs3 = []"
    using f(3) by (auto simp: list_all_iff filter_empty_conv)
  have fq: "filter is_queue_create (query_calls a) = []" "filter is_signal_create (query_calls a) = []"
    by (simp_all add: query_calls_def is_queue_create_def is_signal_create_def)
  have sm: "device_summary s' = device_summary s @ [(agent_handle a, queue d, signal d)]"
    using f(1) d s1 by (simp add: device_summary_def)
  show ?thesis
  proof (cases "0 < agent_queue_max_size a")
    case True
    let ?evs = "query_calls a @ [Hsa_queue_create (agent_handle a) (agent_queue_max_size a),
                        Hsa_amd_profiling_set_profiler_enabled (Suc (length (trace s1))),
                        Hsa_signal_create 0] @ evs3"
    have t: "trace s' = trace s @ ?evs" using True c f(2) s1 by simp
    have "queue_size_of (agent_handle a, queue d, signal d) = expected_queue a"
      using True c by (simp add: queue_size_of_def expected_queue_def)
    moreover have "filter is_queue_create ?evs = queue_create_calls [a]"
      using True f3 fq by (simp add: queue_create_calls_def is_queue_create_def)
    moreover have "filter is_signal_create ?evs = [Hsa_signal_create 0]"
      using f3 fq by (simp add: is_signal_create_def)
    moreover have "device_ok (trace s2) (agent_handle a, queue d, signal d)"
      using True c by (simp add: device_ok_def nth_append)
    then have "device_ok (trace s') (agent_handle a, queue d, signal d)"
      using f(2) device_ok_mono by simp
    moreover have "length (trace s) < signal d" using True c s1 by simp
    ultimately show ?thesis using st sm t by blast
  next
    case False
    let ?evs = "query_calls a @ [Hsa_signal_create 0] @ evs3"
    have t: "trace s' = trace s @ ?evs" using False c f(2) s1 by simp
    have "queue_size_of (agent_handle a, queue d, signal d) = expected_queue a"
      using False c by (simp add: queue_size_of_def expected_queue_def)
    moreover have "filter is_queue_create ?evs = queue_create_calls [a]"
      using False f3 fq by (simp add: queue_create_calls_def is_queue_create_def)
    moreover have "filter is_signal_create ?evs = [Hsa_signal_create 0]"
      using f3 fq by (simp add: is_signal_create_def)
    moreover have "device_ok (trace s2) (agent_handle a, queue d, signal d)"
      using False c by (simp add: device_ok_def nth_append)
    then have "device_ok (trace s') (agent_handle a, queue d, signal d)"
      using f(2) device_ok_mono by simp
    moreover have "length (trace s) < signal d" using False c s1 by simp
    ultimately show ?thesis using st sm t by blast
  qed
qed

lemma iterate_agents_Inr:
  assumes "iterate_agents agents s = (Inr st, s')" and "created_by_discovery s"
  shows "created_by_discovery s'
     \<and> map queue_size_of (device_summary s')
          = map queue_size_of (device_summary s) @ map expected_queue agents
     \<and> (\<exists>evs. trace s' = trace s @ evs
          \<and> filter is_queue_create evs = queue_create_calls agents
          \<and> filter is_signal_create evs = replicate (length agents) (Hsa_signal_create 0))"
  using assms
proof (induction agents arbitrary: s)
  case Nil
  then show ?case by (simp add: queue_create_calls_def)
next
  case (Cons a as)
  obtain x s1 where c: "iterate_agents_callback a s = (x, s1)"
    by (cases "iterate_agents_callback a s")
  with Cons.prems(1) obtain st1 where x: "x = Inr st1"
    by (cases x) auto
  from callback_Inr[OF c[unfolded x]] obtain q sg evs1 where
    st1: "st1 = HSA_STATUS_SUCCESS"
    and sm: "device_summary s1 = device_summary s @ [(agent_handle a, q, sg)]"
    and eq: "queue_size_of (agent_handle a, q, sg) = expected_queue a"
    and t1: "trace s1 = trace s @ evs1"
    and fq: "filter is_queue_create evs1 = queue_create_calls [a]"
    and fs: "filter is_signal_create evs1 = [Hsa_signal_create 0]"
    and ok: "device_ok (trace s1) (agent_handle a, q, sg)" and fresh: "length (trace s) < sg"
    by blast
  have rest: "iterate_agents as s1 = (Inr st, s')"
    using Cons.prems(1) c x st1 by simp
  have old: "list_all (device_ok (trace s1)) (device_summary s)"
    using Cons.prems(2) t1 device_ok_mono by (auto simp: created_by_discovery_def list_all_iff)
  have "\<forall>y\<in>set (device_summary s). snd (snd y) \<le> length (trace s)"
    using Cons.prems(2) by (auto simp: created_by_discovery_def list_all_iff device_ok_def)
  then have "sg \<notin> (\<lambda>x. snd (snd x)) ` set (device_summary s)"
    using fresh by auto
  then have inv1: "created_by_discovery s1"
    using Cons.prems(2) sm ok old by (simp add: created_by_discovery_def)
  from Cons.IH[OF rest inv1] obtain evs2 where
    i: "created_by_discovery s'"
       "map queue_size_of (device_summary s') = map queue_size_of (device_summary s1) @ map expected_queue as"
       "trace s' = trace s1 @ evs2" "filter is_queue_create evs2 = queue_create_calls as"
       "filter is_signal_create evs2 = replicate (length as) (Hsa_signal_create 0)"
    by blast
  have "trace s' = trace s @ (evs1 @ evs2)" using i(3) t1 by simp
  moreover have "filter is_queue_create (evs1 @ evs2) = queue_create_calls (a # as)"
    using fq i(4) by (simp add: queue_create_calls_def)
  moreover have "filter is_signal_create (evs1 @ evs2) = replicate (length (a # as)) (Hsa_signal_create 0)"
    using fs i(5) by simp
  moreover have "map queue_size_of (device_summary s')
          = map queue_size_of (device_summary s) @ map expected_queue (a # as)"
    using i(2) sm eq by simp
  ultimately show ?case using i(1) by blast
qed

lemma HSAPlatform_init_Inr:
  assumes "HSAPlatform_init agents freq s = (Inr (), s')"
  shows "\<exists>st. iterate_agents agents
            (s\<lparr> frequency := freq,
                trace := trace s @ [Hsa_init, Hsa_system_get_info HSA_SYSTEM_INFO_VERSION_MAJOR,
                    Hsa_system_get_info HSA_SYSTEM_INFO_VERSION_MINOR,
                    Hsa_system_get_info HSA_SYSTEM_INFO_TIMESTAMP_FREQUENCY, Hsa_iterate_agents] \<rparr>)
           = (Inr st, s')"
  using assms unfolding HSAPlatform_init_def
  by (auto simp: bindE_def CHECK_HSA_eq call_unchecked_eq returnE_def check_hsa_error_def
      split: if_splits prod.splits sum.splits)

lemma map_update_eq:
  assumes "i < length xs \<Longrightarrow> h y = h (xs ! i)"
  shows "map h (xs[i := y]) = map h xs"
proof (cases "i < length xs")
  case True
  then show ?thesis using assms by (simp add: map_update list_update_same_conv)
next
  case False
  then have "xs[i := y] = xs" by (intro list_update_beyond) simp
  then show ?thesis by simp
qed

lemma frame_ok_device_handles: "frame_ok device_handles"
  by (simp add: frame_ok_def device_handles_def update_device_def map_update_eq)

lemma ignores_programs_device_handles: "ignores_programs device_handles"
  by (simp add: ignores_programs_def device_handles_def update_device_def map_update_eq)

lemma preserves_write_to_command_queue:
  "preserves device_handles (write_to_command_queue dev aql)"
proof (rule preservesI)
  fix s
  show "device_handles (snd (write_to_command_queue dev aql s)) = device_handles s"
  proof (cases "dev < length (devices s)")
    case False
    then show ?thesis by (simp add: write_to_command_queue_def bindE_def get_device_def)
  next
    case True
    show ?thesis
    proof (cases "queue (devices s ! dev)")
      case None
      then show ?thesis using True
        by (simp add: write_to_command_queue_def bindE_def get_device_def failE_def)
    next
      case (Some q)
      then show ?thesis using True
        by (simp add: write_to_command_queue_def bindE_def get_device_def call_unchecked_eq
            returnE_def hsa_signal_store_relaxed_def Let_def device_handles_def update_device_def
            map_update_eq)
    qed
  qed
qed

lemma preserves_submit_kernel:
  "preserves device_handles (submit_kernel dev grid block args t)"
  unfolding submit_kernel_def hsa_signal_add_relaxed_def hsa_signal_create_def
  apply (intro preserves_bindE preserves_get_device preserves_CHECK_HSA preserves_call_unchecked
      preserves_state_if preserves_returnE preserves_write_to_command_queue frame_ok_device_handles)
  apply (simp_all add: preserves_def returnE_def failE_def device_handles_def split: sum.splits)
  done

lemma preserves_launch_kernel:
  "preserves device_handles (launch_kernel dev file name grid block args)"
  unfolding launch_kernel_eq
  by (intro preserves_bindE preserves_get_device preserves_if preserves_failE preserves_submit_kernel
      preserves_load_kernel frame_ok_device_handles ignores_programs_device_handles)

lemma emits_launch_kernel_no_queue_create:
  "emits (\<lambda>c. \<not> is_queue_create c) (launch_kernel dev file name grid block args)"
  unfolding launch_kernel_eq
  apply (intro emits_bindE emits_get_device emits_if emits_failE)
   apply (rule emits_mono[OF emits_load_kernel])
   apply (auto simp: is_load_kernel_call_def is_pipeline_call_def is_symbol_call_def
      is_queue_create_def split: call.splits)[1]
  apply (rule emits_mono[OF emits_submit_kernel])
  apply (auto simp: is_submit_call_def is_queue_call_def is_queue_create_def split: call.splits)[1]
  done

text \<open>
  Claim C5, as the code has it.  When discovery returns, the device table has one entry
  per agent, in order.  An agent whose maximum queue size is not 0 got exactly one
  \<^verbatim>\<open>hsa_queue_create\<close> call, for that size, and its device holds the queue of that call;
  an agent whose maximum queue size is 0 got none and its device has the null queue.
  Every agent got exactly one \<^verbatim>\<open>hsa_signal_create\<close> call, with initial value 0, and its
  device holds the signal of that call; no two devices share a signal.  A later
  \<^verbatim>\<open>launch_kernel\<close> creates no queue and leaves the queue handles, the queue sizes and
  the signals of all devices as they are.
\<close>

theorem discovery_creates_queue_and_signal:
  assumes "HSAPlatform_init agents freq s = (Inr (), s')" and "devices s = []"
  shows "map queue_size_of (device_summary s') = map expected_queue agents
       \<and> created_by_discovery s'
       \<and> (\<exists>evs. trace s' = trace s @ evs
            \<and> filter is_queue_create evs = queue_create_calls agents
            \<and> filter is_signal_create evs = replicate (length agents) (Hsa_signal_create 0))
       \<and> device_handles (snd (launch_kernel dev file name grid block args s')) = device_handles s'
       \<and> (\<exists>evs. trace (snd (launch_kernel dev file name grid block args s')) = trace s' @ evs
            \<and> list_all (\<lambda>c. \<not> is_queue_create c) evs)"
proof -
  let ?pre = "[Hsa_init, Hsa_system_get_info HSA_SYSTEM_INFO_VERSION_MAJOR,
                    Hsa_system_get_info HSA_SYSTEM_INFO_VERSION_MINOR,
                    Hsa_system_get_info HSA_SYSTEM_INFO_TIMESTAMP_FREQUENCY, Hsa_iterate_agents]"
  let ?s0 = "s\<lparr> frequency := freq, trace := trace s @ ?pre \<rparr>"
  from HSAPlatform_init_Inr[OF assms(1)] obtain st where
    it: "iterate_agents agents ?s0 = (Inr st, s')" by blast
  have inv0: "created_by_discovery ?s0"
    using assms(2) by (simp add: created_by_discovery_def device_summary_def)
  from iterate_agents_Inr[OF it inv0] obtain evs where
    i: "created_by_discovery s'"
       "map queue_size_of (device_summary s') = map queue_size_of (device_summary ?s0) @ map expected_queue agents"
       "trace s' = trace ?s0 @ evs" "filter is_queue_create evs = queue_create_calls agents"
       "filter is_signal_create evs = replicate (length agents) (Hsa_signal_create 0)"
    by blast
  have a: "map queue_size_of (device_summary s') = map expected_queue agents"
    using i(2) assms(2) by (simp add: device_summary_def)
  have "trace s' = trace s @ (?pre @ evs)" using i(3) by simp
  moreover have "filter is_queue_create (?pre @ evs) = queue_create_calls agents"
    using i(4) by (simp add: is_queue_create_def)
  moreover have "filter is_signal_create (?pre @ evs) = replicate (length agents) (Hsa_signal_create 0)"
    using i(5) by (simp add: is_signal_create_def)
  ultimately have b: "\<exists>evs. trace s' = trace s @ evs
            \<and> filter is_queue_create evs = queue_create_calls agents
            \<and> filter is_signal_create evs = replicate (length agents) (Hsa_signal_create 0)"
    by blast
  have c: "device_handles (snd (launch_kernel dev file name grid block args s')) = device_handles s'"
    by (rule preservesD[OF preserves_launch_kernel])
  have d: "\<exists>evs. trace (snd (launch_kernel dev file name grid block args s')) = trace s' @ evs
            \<and> list_all (\<lambda>c. \<not> is_queue_create c) evs"
    by (rule emitsD[OF emits_launch_kernel_no_queue_create])
  show ?thesis using a i(1) b c d by blast
qed

lemmas discovery_defs =
  HSAPlatform_init_def iterate_agents_callback_def iterate_regions_callback_def
  hsa_signal_create_def bindE_def returnE_def CHECK_HSA_eq call_unchecked_eq check_hsa_error_def
  update_device_def Let_def substr_after_last_def
  HSA_REGION_GLOBAL_FLAG_KERNARG_def HSA_REGION_GLOBAL_FLAG_FINE_GRAINED_def
  HSA_REGION_GLOBAL_FLAG_COARSE_GRAINED_def

text \<open>
  Claim C5 as stated fails for an agent that reports the maximum queue size 0: discovery
  succeeds, creates no queue, and the device has the null queue.
\<close>

theorem discovery_without_queue:
  "agent_queue_max_size cpu_agent = 0
   \<and> fst (HSAPlatform_init [cpu_agent] 1000 world0) = Inr ()
   \<and> map queue (devices (snd (HSAPlatform_init [cpu_agent] 1000 world0))) = [None]
   \<and> filter is_queue_create (trace (snd (HSAPlatform_init [cpu_agent] 1000 world0))) = []"
  by (simp add: discovery_defs world0_def cpu_agent_def gpu_agent_def is_queue_create_def)

lemma discovery_two_agents:
  "fst (HSAPlatform_init [gpu_agent, cpu_agent] 1000 world0) = Inr ()"
  by (simp add: discovery_defs world0_def cpu_agent_def gpu_agent_def)

theorem discovery_creates_queue_and_signal_witness:
  "fst (HSAPlatform_init [gpu_agent, cpu_agent] 1000 world0) = Inr ()
   \<and> devices world0 = []
   \<and> map queue_size_of (device_summary (snd (HSAPlatform_init [gpu_agent, cpu_agent] 1000 world0)))
       = [(100, Some 128), (101, None)]
   \<and> filter is_queue_create (trace (snd (HSAPlatform_init [gpu_agent, cpu_agent] 1000 world0)))
       = [Hsa_queue_create 100 128]
   \<and> filter is_signal_create (trace (snd (HSAPlatform_init [gpu_agent, cpu_agent] 1000 world0)))
       = [Hsa_signal_create 0, Hsa_signal_create 0]"
proof -
  let ?r = "HSAPlatform_init [gpu_agent, cpu_agent] 1000 world0"
  have h: "?r = (Inr (), snd ?r)" using discovery_two_agents by (metis prod.collapse old.unit.exhaust)
  have d: "devices world0 = []" and t: "trace world0 = []" by (simp_all add: world0_def)
  have e: "map expected_queue [gpu_agent, cpu_agent] = [(100, Some 128), (101, None)]"
    "queue_create_calls [gpu_agent, cpu_agent] = [Hsa_queue_create 100 128]"
    by (simp_all add: expected_queue_def queue_create_calls_def gpu_agent_def cpu_agent_def)
  from discovery_creates_queue_and_signal[OF h d] t e discovery_two_agents d
  show ?thesis by (auto simp: numeral_2_eq_2)
qed

lemmas step_defs =
  step_thread_def step_pc_def continue_at_def load_kernel_call_def
  program_lookup_def build_executable_def program_publish_def
  kernel_lookup_def kernel_resolve_def kernel_publish_def kernel_map_of_def emplace_def
  file_extension_def substr_after_last_def load_file_def
  bindE_def returnE_def failE_def get_device_def lock_def unlock_def
  update_device_def CHECK_HSA_eq Let_def

section \<open>Racing calls of \<^verbatim>\<open>load_kernel\<close>\<close>

text \<open>
  Claim C1 as stated fails.  In the race, both threads miss and build; after five steps
  the first thread has published its executable 2; the second thread then publishes its
  executable 8 over it.  Both calls return, with different executables and different
  kernel objects, and the cache entry has changed from 2 to 8.
\<close>

theorem racing_load_kernel_overwrites:
  "map th_pc (fst (run (take 5 race) (two_calls, world3))) = [At_kernel_lookup 2, At_program_publish 8]
   \<and> programs (devices (snd (run (take 5 race) (two_calls, world3))) ! 0) ''k.gcn'' = Some 2
   \<and> map th_pc (fst (run race (two_calls, world3)))
       = [Returned 2 (2, 40, 0, 0), Returned 8 (8, 40, 0, 0)]
   \<and> programs (devices (snd (run race (two_calls, world3))) ! 0) ''k.gcn'' = Some 8"
  by (simp add: race_def two_calls_def step_defs world3_def world2_def world0_def device0_def)

lemma step_pc_program_publish:
  assumes "dev < length (devices s)" and "\<not> locked (devices s ! dev)"
  shows "\<exists>s'. step_pc dev filename kernelname (At_program_publish executable) s
               = (At_kernel_lookup executable, s')
            \<and> programs (devices s' ! dev) = (programs (devices s ! dev))(filename \<mapsto> executable)
            \<and> locked (devices s' ! dev) \<and> trace s' = trace s"
  using assms
  by (simp add: step_pc_def continue_at_def program_publish_eq update_device_def)

lemma step_pc_program_lookup_hit:
  assumes "dev < length (devices s)" and "\<not> locked (devices s ! dev)"
    and "programs (devices s ! dev) filename = Some executable"
  shows "\<exists>s'. step_pc dev filename kernelname At_program_lookup s = (At_kernel_lookup executable, s')
            \<and> programs (devices s' ! dev) = programs (devices s ! dev) \<and> trace s' = trace s"
  using assms
  by (simp add: step_pc_def continue_at_def program_lookup_eq update_device_def)

lemma step_pc_program_lookup_miss:
  assumes "dev < length (devices s)" and "\<not> locked (devices s ! dev)"
    and "programs (devices s ! dev) filename = None"
  shows "\<exists>s'. step_pc dev filename kernelname At_program_lookup s = (At_build, s')
            \<and> programs (devices s' ! dev) = programs (devices s ! dev)
            \<and> \<not> locked (devices s' ! dev) \<and> trace s' = trace s"
  using assms
  by (simp add: step_pc_def continue_at_def program_lookup_eq update_device_def)

lemma step_pc_blocked:
  assumes "dev < length (devices s)" and "locked (devices s ! dev)"
  shows "step_pc dev filename kernelname At_program_lookup s = (At_program_lookup, s)
       \<and> step_pc dev filename kernelname (At_program_publish executable) s
            = (At_program_publish executable, s)"
  using assms
  by (simp add: step_pc_def continue_at_def program_lookup_eq program_publish_eq)

text \<open>
  Claim C1, as the code has it.  A thread that has built an executable and finds the
  lock free stores the executable under the file name whatever the cache holds for that
  name, and goes on with its own executable: the last publish wins.  A thread that looks
  up a name that has an entry goes on with that entry and builds nothing; one that finds
  no entry releases the lock and builds.  While the lock is held, a thread at the
  look-up or at the publish does not move.  One thread running alone does what
  \<^verbatim>\<open>load_kernel\<close> does (lemma \<open>single_thread_is_load_kernel\<close>).
\<close>

theorem racing_publish_last_writer_wins:
  assumes "dev < length (devices s)"
  shows "(\<not> locked (devices s ! dev) \<longrightarrow>
          (\<exists>s'. step_pc dev filename kernelname (At_program_publish executable) s
               = (At_kernel_lookup executable, s')
            \<and> programs (devices s' ! dev) = (programs (devices s ! dev))(filename \<mapsto> executable)
            \<and> locked (devices s' ! dev) \<and> trace s' = trace s)
        \<and> (\<forall>cached. programs (devices s ! dev) filename = Some cached \<longrightarrow>
            (\<exists>s'. step_pc dev filename kernelname At_program_lookup s = (At_kernel_lookup cached, s')
               \<and> programs (devices s' ! dev) = programs (devices s ! dev) \<and> trace s' = trace s))
        \<and> (programs (devices s ! dev) filename = None \<longrightarrow>
            (\<exists>s'. step_pc dev filename kernelname At_program_lookup s = (At_build, s')
               \<and> programs (devices s' ! dev) = programs (devices s ! dev)
               \<and> \<not> locked (devices s' ! dev) \<and> trace s' = trace s)))
       \<and> (locked (devices s ! dev) \<longrightarrow>
            step_pc dev filename kernelname At_program_lookup s = (At_program_lookup, s)
          \<and> step_pc dev filename kernelname (At_program_publish executable) s
               = (At_program_publish executable, s))"
  using step_pc_program_publish[OF assms] step_pc_program_lookup_hit[OF assms]
    step_pc_program_lookup_miss[OF assms] step_pc_blocked[OF assms]
  by blast

theorem racing_publish_last_writer_wins_witness:
  "0 < length (devices world1) \<and> \<not> locked (devices world1 ! 0)
   \<and> programs (devices world1 ! 0) ''k.gcn'' = Some 20
   \<and> fst (step_pc 0 ''k.gcn'' ''main'' (At_program_publish 99) world1) = At_kernel_lookup 99
   \<and> programs (devices (snd (step_pc 0 ''k.gcn'' ''main'' (At_program_publish 99) world1)) ! 0)
        ''k.gcn'' = Some 99
   \<and> fst (step_pc 0 ''k.gcn'' ''main'' At_program_lookup world1) = At_kernel_lookup 20"
proof -
  have h: "0 < length (devices world1)" "\<not> locked (devices world1 ! 0)"
    and c: "programs (devices world1 ! 0) ''k.gcn'' = Some 20"
    by (simp_all add: world1_def world0_def device0_def)
  from racing_publish_last_writer_wins[OF h(1), of "''k.gcn''" "''main''" 99] h c
  show ?thesis by auto
qed

lemma steps_Returned: "steps n dev filename kernelname (Returned e t, s) = (Returned e t, s)"
  by (induction n) (simp_all add: step_pc_def)

lemma steps_add:
  "steps (m + n) dev filename kernelname c = steps n dev filename kernelname (steps m dev filename kernelname c)"
  by (induction m arbitrary: c) simp_all

lemma steps_cached:
  assumes "load_kernel_cached dev e kernelname sc = (Inr t, s')"
  shows "steps 4 dev filename kernelname (At_kernel_lookup e, sc) = (Returned e t, s')"
proof -
  let ?resolve = "\<lambda>kernel_it. case kernel_it of
              None \<Rightarrow>
                bindE (kernel_resolve dev e kernelname) (\<lambda>t.
                bindE (kernel_publish dev e kernelname t) (\<lambda>_.
                returnE t))
            | Some t \<Rightarrow> returnE t"
  from assms obtain kernel_it s1 where
    kl: "kernel_lookup dev e kernelname sc = (Inr kernel_it, s1)"
    and rest: "bindE (?resolve kernel_it) (\<lambda>t. bindE (unlock dev) (\<lambda>_. returnE t)) s1 = (Inr t, s')"
    unfolding load_kernel_cached_def bindE_Inr by blast
  from rest obtain t' sd where
    c: "?resolve kernel_it s1 = (Inr t', sd)"
    and u: "bindE (unlock dev) (\<lambda>_. returnE t') sd = (Inr t, s')"
    unfolding bindE_Inr by blast
  have tt: "t' = t" and ul: "unlock dev sd = (Inr (), s')"
    using u by (simp_all add: bindE_def unlock_def returnE_def)
  have four: "(4::nat) = Suc (Suc (Suc (Suc 0)))" by simp
  show ?thesis
  proof (cases kernel_it)
    case None
    with c have "bindE (kernel_resolve dev e kernelname) (\<lambda>t.
                bindE (kernel_publish dev e kernelname t) (\<lambda>_.
                returnE t)) s1 = (Inr t', sd)" by simp
    then obtain x s2 where r: "kernel_resolve dev e kernelname s1 = (Inr x, s2)"
      and p: "bindE (kernel_publish dev e kernelname x) (\<lambda>_. returnE x) s2 = (Inr t', sd)"
      unfolding bindE_Inr by blast
    from p obtain u' s3 where kp: "kernel_publish dev e kernelname x s2 = (Inr u', s3)"
      and "returnE x s3 = (Inr t', sd)" unfolding bindE_Inr by blast
    then have "x = t" "s3 = sd" using tt by (simp_all add: returnE_def)
    then show ?thesis
      unfolding four using kl None r kp ul
      by (simp add: step_pc_def continue_at_def)
  next
    case (Some c')
    with c have "c' = t" "sd = s1" using tt by (simp_all add: returnE_def)
    then show ?thesis
      unfolding four using kl Some ul
      by (simp add: step_pc_def continue_at_def steps_Returned)
  qed
qed

lemma steps_load_kernel:
  assumes "load_kernel dev filename kernelname s = (Inr t, s')"
  shows "\<exists>e. steps 7 dev filename kernelname (At_program_lookup, s) = (Returned e t, s')"
proof -
  from assms obtain prog_it sa e sc where
    pl: "program_lookup dev filename s = (Inr prog_it, sa)"
    and ch: "(case prog_it of
              None \<Rightarrow>
                bindE (build_executable dev filename) (\<lambda>executable.
                bindE (program_publish dev filename executable) (\<lambda>_.
                returnE executable))
            | Some executable \<Rightarrow> returnE executable) sa = (Inr e, sc)"
    and kc: "load_kernel_cached dev e kernelname sc = (Inr t, s')"
    unfolding load_kernel_eq bindE_Inr by blast
  have seven: "(7::nat) = 3 + 4" "(3::nat) = Suc (Suc (Suc 0))" by simp_all
  have "steps 3 dev filename kernelname (At_program_lookup, s) = (At_kernel_lookup e, sc)
      \<or> steps 3 dev filename kernelname (At_program_lookup, s)
          = steps 2 dev filename kernelname (At_kernel_lookup e, sc)"
  proof (cases prog_it)
    case None
    with ch have "bindE (build_executable dev filename) (\<lambda>executable.
                bindE (program_publish dev filename executable) (\<lambda>_.
                returnE executable)) sa = (Inr e, sc)" by simp
    then obtain x sb where bx: "build_executable dev filename sa = (Inr x, sb)"
      and r: "bindE (program_publish dev filename x) (\<lambda>_. returnE x) sb = (Inr e, sc)"
      unfolding bindE_Inr by blast
    from r obtain u sb' where px: "program_publish dev filename x sb = (Inr u, sb')"
      and "returnE x sb' = (Inr e, sc)"
      unfolding bindE_Inr by blast
    then have "x = e" "sb' = sc" by (simp_all add: returnE_def)
    then show ?thesis
      unfolding seven(2) using pl None bx px by (simp add: step_pc_def continue_at_def)
  next
    case (Some e')
    with ch have "e' = e" "sc = sa" by (simp_all add: returnE_def)
    then show ?thesis
      unfolding seven(2) using pl Some
      by (simp add: step_pc_def continue_at_def numeral_2_eq_2)
  qed
  moreover have "steps 4 dev filename kernelname (At_kernel_lookup e, sc) = (Returned e t, s')"
    by (rule steps_cached[OF kc])
  moreover have "steps 4 dev filename kernelname (steps 2 dev filename kernelname (At_kernel_lookup e, sc))
      = (Returned e t, s')"
  proof -
    have "steps 4 dev filename kernelname (steps 2 dev filename kernelname (At_kernel_lookup e, sc))
        = steps 2 dev filename kernelname (steps 4 dev filename kernelname (At_kernel_lookup e, sc))"
      using steps_add[of 2 4 dev filename kernelname "(At_kernel_lookup e, sc)"]
            steps_add[of 4 2 dev filename kernelname "(At_kernel_lookup e, sc)"]
      by (simp add: add.commute)
    then show ?thesis using steps_cached[OF kc] steps_Returned by simp
  qed
  ultimately show ?thesis unfolding seven(1) steps_add by auto
qed

lemma run_single_thread:
  "run (replicate n 0) ([th], s) =
     (case steps n (th_dev th) (th_filename th) (th_kernelname th) (th_pc th, s) of
        (pc', s') \<Rightarrow> ([th\<lparr> th_pc := pc' \<rparr>], s'))"
proof (induction n arbitrary: th s)
  case 0
  then show ?case by simp
next
  case (Suc n)
  obtain pc' s1 where st: "step_pc (th_dev th) (th_filename th) (th_kernelname th) (th_pc th) s = (pc', s1)"
    by (cases "step_pc (th_dev th) (th_filename th) (th_kernelname th) (th_pc th) s")
  then show ?case using Suc.IH[of "th\<lparr> th_pc := pc' \<rparr>" s1]
    by (simp add: step_thread_def)
qed

lemma single_thread_is_load_kernel:
  assumes "load_kernel dev filename kernelname s = (Inr t, s')"
  shows "\<exists>e. run (replicate 7 0) ([load_kernel_call dev filename kernelname], s) =
               ([(load_kernel_call dev filename kernelname)\<lparr> th_pc := Returned e t \<rparr>], s')"
proof -
  from steps_load_kernel[OF assms] obtain e where
    "steps 7 dev filename kernelname (At_program_lookup, s) = (Returned e t, s')" by blast
  then show ?thesis
    unfolding run_single_thread by (simp add: load_kernel_call_def)
qed

end
